theory Spec2Isabelle
  imports Complex_Main
begin

section \<open>Floating-point numbers, tensors and errors\<close>

text \<open>
  Tensor entries are IEEE 754 numbers: a finite value, one of the two infinities or
  \<open>NaN\<close>. The two zeros are identified: they compare equal and no operation of the code
  under study (sums, differences, products, square roots, quotients by a positive count
  or by a sum of exponentials) tells them apart.
\<close>

datatype fl = Fin real | PInf | NInf | NaN

subsection \<open>Rounding\<close>

text \<open>
  Every arithmetic operation computes the exact result and rounds it into the format of
  its operands. The rounding is a parameter of the whole development, so that the same
  translation of the code can be read in the arithmetic the interpreter uses
  (\<open>binary32\<close> for numpy and torch tensors, \<open>binary64\<close> for Python floats) and in exact
  arithmetic, where nothing is rounded.
\<close>

definition pow2 :: "int \<Rightarrow> real" where
  "pow2 e = (if 0 \<le> e then 2 ^ nat e else 1 / 2 ^ nat (- e))"

text \<open>
  The exponent of a positive number \<open>a\<close>: the greatest \<open>e\<close> between \<open>emin\<close> and the start
  value with \<open>pow2 e \<le> a\<close>, and \<open>emin\<close> when there is none (the subnormal range).
\<close>

function exponent_from :: "int \<Rightarrow> int \<Rightarrow> real \<Rightarrow> int" where
  "exponent_from emin e a =
     (if e \<le> emin \<or> pow2 e \<le> a then e else exponent_from emin (e - 1) a)"
  by pat_completeness auto
termination
  by (relation "measure (\<lambda>(emin, e, a). nat (e - emin))") auto

declare exponent_from.simps [simp del]

text \<open>Rounding to the nearest integer, ties to the even one.\<close>

definition round_even :: "real \<Rightarrow> int" where
  "round_even r =
     (let f = \<lfloor>r\<rfloor>
      in if r - of_int f < 1 / 2 then f
         else if 1 / 2 < r - of_int f then f + 1
         else if even f then f else f + 1)"

text \<open>
  Round to nearest, ties to even, into the binary format with \<open>p\<close> significant bits and
  greatest exponent \<open>emax\<close>: the result is a multiple of the quantum \<open>pow2 (e - p + 1)\<close>
  of the exponent \<open>e\<close> of the argument; a result of magnitude \<open>pow2 (emax + 1)\<close> or more
  is an infinity.
\<close>

definition round_ieee :: "nat \<Rightarrow> int \<Rightarrow> real \<Rightarrow> fl" where
  "round_ieee p emax x =
     (if x = 0 then Fin 0
      else
        let a = \<bar>x\<bar>;
            e = exponent_from (1 - emax) emax a;
            q = pow2 (e - int p + 1);
            y = of_int (round_even (a / q)) * q
        in if pow2 (emax + 1) \<le> y then (if 0 < x then PInf else NInf)
           else Fin (if 0 < x then y else - y))"

definition binary32 :: "real \<Rightarrow> fl" where
  "binary32 = round_ieee 24 127"

definition binary64 :: "real \<Rightarrow> fl" where
  "binary64 = round_ieee 53 1023"

text \<open>
  An arithmetic gives the rounding of tensor entries (\<open>single\<close>) and of Python floats
  (\<open>double\<close>).
\<close>

record arith =
  single :: "real \<Rightarrow> fl"
  double :: "real \<Rightarrow> fl"

definition ieee :: arith where
  "ieee = \<lparr>single = binary32, double = binary64\<rparr>"

definition exact :: arith where
  "exact = \<lparr>single = Fin, double = Fin\<rparr>"

text \<open>The values of a format are the numbers that rounding leaves alone.\<close>

definition representable :: "(real \<Rightarrow> fl) \<Rightarrow> real \<Rightarrow> bool" where
  "representable rnd x = (rnd x = Fin x)"

subsection \<open>Operations\<close>

fun fl_add :: "(real \<Rightarrow> fl) \<Rightarrow> fl \<Rightarrow> fl \<Rightarrow> fl" where
  "fl_add rnd (Fin a) (Fin b) = rnd (a + b)"
| "fl_add rnd NaN _ = NaN"
| "fl_add rnd _ NaN = NaN"
| "fl_add rnd PInf NInf = NaN"
| "fl_add rnd NInf PInf = NaN"
| "fl_add rnd PInf _ = PInf"
| "fl_add rnd NInf _ = NInf"
| "fl_add rnd (Fin a) PInf = PInf"
| "fl_add rnd (Fin a) NInf = NInf"

fun fl_neg :: "fl \<Rightarrow> fl" where
  "fl_neg (Fin a) = Fin (- a)"
| "fl_neg PInf = NInf"
| "fl_neg NInf = PInf"
| "fl_neg NaN = NaN"

fun fl_sub :: "(real \<Rightarrow> fl) \<Rightarrow> fl \<Rightarrow> fl \<Rightarrow> fl" where
  "fl_sub rnd (Fin a) (Fin b) = rnd (a - b)"
| "fl_sub rnd a b = fl_add rnd a (fl_neg b)"

text \<open>The product of an infinity and a finite number or an infinity, by the sign.\<close>

definition inf_of_sign :: "bool \<Rightarrow> fl" where
  "inf_of_sign positive = (if positive then PInf else NInf)"

fun fl_mul :: "(real \<Rightarrow> fl) \<Rightarrow> fl \<Rightarrow> fl \<Rightarrow> fl" where
  "fl_mul rnd (Fin a) (Fin b) = rnd (a * b)"
| "fl_mul rnd NaN _ = NaN"
| "fl_mul rnd _ NaN = NaN"
| "fl_mul rnd (Fin a) PInf = (if a = 0 then NaN else inf_of_sign (0 < a))"
| "fl_mul rnd (Fin a) NInf = (if a = 0 then NaN else inf_of_sign (a < 0))"
| "fl_mul rnd PInf (Fin b) = (if b = 0 then NaN else inf_of_sign (0 < b))"
| "fl_mul rnd NInf (Fin b) = (if b = 0 then NaN else inf_of_sign (b < 0))"
| "fl_mul rnd PInf PInf = PInf"
| "fl_mul rnd PInf NInf = NInf"
| "fl_mul rnd NInf PInf = NInf"
| "fl_mul rnd NInf NInf = PInf"

text \<open>
  Division of an entry by a Python integer that counts samples. The code divides by
  \<open>n\<close> after \<open>n += 1\<close> and by \<open>n - 1\<close> only when \<open>n > 1\<close>; a zero count would give numpy's
  infinities and \<open>NaN\<close>, not an exception.
\<close>

fun fl_div_count :: "(real \<Rightarrow> fl) \<Rightarrow> fl \<Rightarrow> nat \<Rightarrow> fl" where
  "fl_div_count rnd (Fin a) k =
     (if k = 0 then (if a = 0 then NaN else inf_of_sign (0 < a)) else rnd (a / real k))"
| "fl_div_count rnd PInf k = PInf"
| "fl_div_count rnd NInf k = NInf"
| "fl_div_count rnd NaN k = NaN"

text \<open>\<open>torch.sqrt\<close>: no exception on a negative entry, the result there is \<open>NaN\<close>.\<close>

fun fl_sqrt :: "(real \<Rightarrow> fl) \<Rightarrow> fl \<Rightarrow> fl" where
  "fl_sqrt rnd (Fin a) = (if a < 0 then NaN else rnd (sqrt a))"
| "fl_sqrt rnd PInf = PInf"
| "fl_sqrt rnd NInf = NaN"
| "fl_sqrt rnd NaN = NaN"

fun fl_nonneg :: "fl \<Rightarrow> bool" where
  "fl_nonneg (Fin a) = (0 \<le> a)"
| "fl_nonneg PInf = True"
| "fl_nonneg NInf = False"
| "fl_nonneg NaN = False"

fun is_Fin :: "fl \<Rightarrow> bool" where
  "is_Fin (Fin a) = True"
| "is_Fin _ = False"

text \<open>
  A tensor is the list of its entries in row-major order, which is what
  \<open>p.grad.view(-1)\<close> exposes; its shape is its number of entries.
\<close>

type_synonym tensor = "fl list"

definition zeros_like :: "tensor \<Rightarrow> tensor" where
  "zeros_like t = replicate (length t) (Fin 0)"

datatype error = TypeError | ValueError | RuntimeError | ZeroDivisionError

section \<open>Online variance of gradient snapshots\<close>

text \<open>
  \<open>compute_variance_online\<close> of \<open>agni_effective_step_sizes.py\<close>. The loop state is
  the triple \<open>(n, mean, M2)\<close>; \<open>mean\<close> and \<open>M2\<close> start as \<open>None\<close>. The samples are
  numpy arrays of the tensors' format, and so is every intermediate array; \<open>rnd\<close> is
  the rounding of that format.
\<close>

record VarianceState =
  vs_n :: nat
  vs_mean :: "tensor option"
  vs_M2 :: "tensor option"

definition empty_state :: VarianceState where
  "empty_state = \<lparr>vs_n = 0, vs_mean = None, vs_M2 = None\<rparr>"

text \<open>
  numpy broadcasting of a one-dimensional sample against the running mean: the in-place
  \<open>mean += delta / n\<close> needs the broadcast shape to be the shape of \<open>mean\<close>, so the
  sample has either the length of \<open>mean\<close> or length one; any other length raises
  \<open>ValueError\<close>.
\<close>

definition np_broadcast_to :: "nat \<Rightarrow> tensor \<Rightarrow> tensor option" where
  "np_broadcast_to d g =
     (if length g = d then Some g
      else if length g = 1 then Some (replicate d (hd g))
      else None)"

text \<open>One pass through the loop body, for the sample \<open>grad\<close>.\<close>

definition variance_update ::
  "(real \<Rightarrow> fl) \<Rightarrow> VarianceState \<Rightarrow> tensor \<Rightarrow> error + VarianceState" where
  "variance_update rnd s grad =
     (let (mean0, M20) =
            (case vs_mean s of
               None \<Rightarrow> (Some (zeros_like grad), Some (zeros_like grad))
             | Some m \<Rightarrow> (Some m, vs_M2 s));
          n' = vs_n s + 1
      in case mean0 of
           None \<Rightarrow> Inl TypeError
         | Some m \<Rightarrow>
             (case np_broadcast_to (length m) grad of
                None \<Rightarrow> Inl ValueError
              | Some g \<Rightarrow>
                  let delta = map2 (fl_sub rnd) g m;
                      mean' = map2 (fl_add rnd) m (map (\<lambda>d. fl_div_count rnd d n') delta);
                      delta2 = map2 (fl_sub rnd) g mean'
                  in (case M20 of
                        None \<Rightarrow> Inl TypeError
                      | Some q \<Rightarrow>
                          Inr \<lparr>vs_n = n', vs_mean = Some mean',
                               vs_M2 = Some (map2 (fl_add rnd) q
                                               (map2 (fl_mul rnd) delta delta2))\<rparr>)))"

fun variance_loop ::
  "(real \<Rightarrow> fl) \<Rightarrow> VarianceState \<Rightarrow> tensor list \<Rightarrow> error + VarianceState" where
  "variance_loop rnd s [] = Inr s"
| "variance_loop rnd s (grad # gradients) =
     (case variance_update rnd s grad of
        Inl e \<Rightarrow> Inl e
      | Inr s' \<Rightarrow> variance_loop rnd s' gradients)"

text \<open>
  \<open>variance = M2 / (n - 1) if n > 1 else M2\<close>; with no sample at all \<open>M2\<close> is still
  \<open>None\<close> and \<open>torch.from_numpy\<close> raises \<open>TypeError\<close>.
\<close>

definition variance_finalize :: "(real \<Rightarrow> fl) \<Rightarrow> VarianceState \<Rightarrow> error + tensor" where
  "variance_finalize rnd s =
     (case vs_M2 s of
        None \<Rightarrow> Inl TypeError
      | Some q \<Rightarrow>
          Inr (if vs_n s > 1 then map (\<lambda>x. fl_div_count rnd x (vs_n s - 1)) q else q))"

definition compute_variance_online :: "(real \<Rightarrow> fl) \<Rightarrow> tensor list \<Rightarrow> error + tensor" where
  "compute_variance_online rnd gradients =
     (case variance_loop rnd empty_state gradients of
        Inl e \<Rightarrow> Inl e
      | Inr s \<Rightarrow> variance_finalize rnd s)"

subsection \<open>The update in exact arithmetic\<close>

text \<open>
  On finite samples of one shape and without rounding the loop body computes these two
  real vectors: the new mean and the new sum of squared deviations after the
  \<open>(k + 1)\<close>-th sample \<open>x\<close>.
\<close>

definition welford_mean :: "nat \<Rightarrow> real list \<Rightarrow> real list \<Rightarrow> real list" where
  "welford_mean k m x = map2 (+) m (map (\<lambda>v. v / real (Suc k)) (map2 (-) x m))"

definition welford_M2 :: "nat \<Rightarrow> real list \<Rightarrow> real list \<Rightarrow> real list \<Rightarrow> real list" where
  "welford_M2 k m q x = map2 (+) q (map2 (*) (map2 (-) x m) (map2 (-) x (welford_mean k m x)))"

text \<open>Column sums and sums of squares of the samples, per entry \<open>j\<close>.\<close>

definition col_sum :: "real list list \<Rightarrow> nat \<Rightarrow> real" where
  "col_sum xs j = (\<Sum>x\<leftarrow>xs. x ! j)"

definition col_sumsq :: "real list list \<Rightarrow> nat \<Rightarrow> real" where
  "col_sumsq xs j = (\<Sum>x\<leftarrow>xs. (x ! j)\<^sup>2)"

subsection \<open>The two-pass sample variance\<close>

text \<open>
  The batch formula the streaming result is compared with: per entry, the mean of the
  samples first, then the sum of squared deviations from it over \<open>n - 1\<close>.
\<close>

definition sample_mean :: "real list \<Rightarrow> real" where
  "sample_mean ys = sum_list ys / real (length ys)"

definition two_pass_variance_col :: "real list \<Rightarrow> real" where
  "two_pass_variance_col ys = (\<Sum>y\<leftarrow>ys. (y - sample_mean ys)\<^sup>2) / real (length ys - 1)"

definition two_pass_variance :: "nat \<Rightarrow> real list list \<Rightarrow> real list" where
  "two_pass_variance d xs = map (\<lambda>j. two_pass_variance_col (map (\<lambda>x. x ! j) xs)) [0..<d]"

subsection \<open>The invariant of the loop state\<close>

text \<open>
  Before the first sample both tensors are absent and the count is zero; afterwards
  both have the shape \<open>d\<close> of the samples, the mean is finite and every entry of
  \<open>M2\<close> is a finite non-negative number.
\<close>

definition variance_invariant :: "nat \<Rightarrow> VarianceState \<Rightarrow> bool" where
  "variance_invariant d s =
     (case vs_mean s of
        None \<Rightarrow> vs_n s = 0 \<and> vs_M2 s = None
      | Some m \<Rightarrow>
          (case vs_M2 s of
             None \<Rightarrow> False
           | Some q \<Rightarrow> length m = d \<and> length q = d \<and> list_all is_Fin m
                      \<and> list_all is_Fin q \<and> list_all fl_nonneg q))"

section \<open>Noise injection\<close>

text \<open>
  The body of the noise-injection branch of \<open>run_experiment\<close> for one parameter:
  \<^verbatim>\<open>
  grad_magnitude = torch.norm(p.grad)
  noise_scale = torch.sqrt(eta * gradient_variance.view(p.grad.shape)) * grad_magnitude
  noise = torch.randn_like(p.grad) * noise_scale
  p.grad += noise
  \<close>
  All tensors have the format with rounding \<open>rnd\<close>. The Python float \<open>eta\<close> is
  converted to that format when it multiplies a tensor. \<open>torch.norm\<close> is the square
  root of the sum of the squares, accumulated in the format of the tensor. The standard
  normal draws of \<open>torch.randn_like\<close> are an input, one finite number per entry.
\<close>

definition tensor_norm :: "(real \<Rightarrow> fl) \<Rightarrow> tensor \<Rightarrow> fl" where
  "tensor_norm rnd t = fl_sqrt rnd (foldl (fl_add rnd) (Fin 0) (map (\<lambda>x. fl_mul rnd x x) t))"

definition randn_like :: "(nat \<Rightarrow> real) \<Rightarrow> tensor \<Rightarrow> tensor" where
  "randn_like z t = map (\<lambda>j. Fin (z j)) [0..<length t]"

definition noise_scale :: "(real \<Rightarrow> fl) \<Rightarrow> real \<Rightarrow> tensor \<Rightarrow> fl \<Rightarrow> tensor" where
  "noise_scale rnd eta variance grad_magnitude =
     map (\<lambda>v. fl_mul rnd (fl_sqrt rnd (fl_mul rnd (rnd eta) v)) grad_magnitude) variance"

definition add_noise :: "(real \<Rightarrow> fl) \<Rightarrow> tensor \<Rightarrow> tensor \<Rightarrow> (nat \<Rightarrow> real) \<Rightarrow> tensor" where
  "add_noise rnd grad scale z =
     map2 (fl_add rnd) grad (map2 (fl_mul rnd) (randn_like z grad) scale)"

text \<open>
  \<open>gradient_variance.view(p.grad.shape)\<close> raises \<open>RuntimeError\<close> unless the variance has
  as many entries as the gradient. Nothing else in the fragment raises.
\<close>

definition inject_noise ::
  "(real \<Rightarrow> fl) \<Rightarrow> real \<Rightarrow> tensor \<Rightarrow> tensor \<Rightarrow> (nat \<Rightarrow> real) \<Rightarrow> error + tensor" where
  "inject_noise rnd eta grad gradient_variance z =
     (if length gradient_variance \<noteq> length grad then Inl RuntimeError
      else Inr (add_noise rnd grad
                  (noise_scale rnd eta gradient_variance (tensor_norm rnd grad)) z))"

section \<open>The experiment loop\<close>

text \<open>
  \<open>run_experiment\<close> of \<open>agni_effective_step_sizes.py\<close>. Gradients live in buffers that
  are shared: \<open>loss.backward()\<close> allocates a buffer for \<open>p.grad\<close> when it is \<open>None\<close> and
  otherwise adds into the existing one in place, \<open>p.grad += noise\<close> writes into it in
  place, and a snapshot \<open>p.grad.view(-1).detach()\<close> is a view of the buffer, not a copy.
  Each parameter therefore carries the buffers allocated for its gradient so far, the
  index of the buffer that \<open>p.grad\<close> refers to (absent when \<open>p.grad\<close> is \<open>None\<close>) and, for
  \<open>gradient_dict[p]\<close>, the list of the indices of the buffers its snapshots view.
\<close>

record param_state =
  p_numel :: nat
  p_buffers :: "tensor list"
  p_grad :: "nat option"
  p_snapshots :: "nat list"

record run_state =
  params :: "param_state list"
  effective_step_sizes :: "fl list"
  optimizer_steps :: nat

text \<open>The tensor \<open>p.grad\<close>, and the tensors that the snapshots show at the moment.\<close>

definition grad_tensor :: "param_state \<Rightarrow> tensor option" where
  "grad_tensor p = map_option (\<lambda>a. p_buffers p ! a) (p_grad p)"

definition snapshot_tensors :: "param_state \<Rightarrow> tensor list" where
  "snapshot_tensors p = map (\<lambda>a. p_buffers p ! a) (p_snapshots p)"

text \<open>
  \<open>SimpleModel\<close>: \<open>fc1 = Linear(10, 5)\<close> and \<open>fc2 = Linear(5, 1)\<close>, so the parameters
  are a \<open>5 \<times> 10\<close> weight, a bias of 5, a \<open>1 \<times> 5\<close> weight and a bias of 1.
\<close>

definition SimpleModel_parameters :: "nat list" where
  "SimpleModel_parameters = [50, 5, 5, 1]"

definition init_state :: run_state where
  "init_state =
     \<lparr>params = map (\<lambda>d. \<lparr>p_numel = d, p_buffers = [], p_grad = None, p_snapshots = []\<rparr>)
                  SimpleModel_parameters,
      effective_step_sizes = [], optimizer_steps = 0\<rparr>"

text \<open>
  \<open>loss.backward()\<close>: the gradient of the loss of this micro-batch with respect to a
  parameter is an input, one value of the format per entry (\<open>c j\<close> before rounding).
\<close>

definition backward_param :: "(real \<Rightarrow> fl) \<Rightarrow> (nat \<Rightarrow> real) \<Rightarrow> param_state \<Rightarrow> param_state" where
  "backward_param rnd c p =
     (let g = map (\<lambda>j. rnd (c j)) [0..<p_numel p]
      in case p_grad p of
           None \<Rightarrow> p\<lparr>p_buffers := p_buffers p @ [g], p_grad := Some (length (p_buffers p))\<rparr>
         | Some a \<Rightarrow> p\<lparr>p_buffers := (p_buffers p)[a := map2 (fl_add rnd) (p_buffers p ! a) g]\<rparr>)"

definition backward ::
  "(real \<Rightarrow> fl) \<Rightarrow> (nat \<Rightarrow> nat \<Rightarrow> real) \<Rightarrow> param_state list \<Rightarrow> param_state list" where
  "backward rnd c ps = map (\<lambda>(i, p). backward_param rnd (c i) p) (enumerate 0 ps)"

text \<open>\<open>if p.grad is not None: gradient_dict[p].append(p.grad.view(-1).detach())\<close>\<close>

definition collect_param :: "param_state \<Rightarrow> param_state" where
  "collect_param p =
     (case p_grad p of
        None \<Rightarrow> p
      | Some a \<Rightarrow> p\<lparr>p_snapshots := p_snapshots p @ [a]\<rparr>)"

text \<open>
  The noise branch for one parameter: the variance of the snapshots as they read now,
  the reset of the snapshot list, and the injection into the gradient buffer.
\<close>

definition inject_param ::
  "(real \<Rightarrow> fl) \<Rightarrow> real \<Rightarrow> (nat \<Rightarrow> real) \<Rightarrow> param_state \<Rightarrow> error + param_state" where
  "inject_param rnd eta z p =
     (case p_grad p of
        None \<Rightarrow> Inr p
      | Some a \<Rightarrow>
          (case compute_variance_online rnd (snapshot_tensors p) of
             Inl e \<Rightarrow> Inl e
           | Inr gradient_variance \<Rightarrow>
               (case inject_noise rnd eta (p_buffers p ! a) gradient_variance z of
                  Inl e \<Rightarrow> Inl e
                | Inr g' \<Rightarrow> Inr (p\<lparr>p_snapshots := [], p_buffers := (p_buffers p)[a := g']\<rparr>))))"

fun inject_all ::
  "(real \<Rightarrow> fl) \<Rightarrow> real \<Rightarrow> (nat \<Rightarrow> nat \<Rightarrow> real) \<Rightarrow> nat \<Rightarrow> param_state list
   \<Rightarrow> error + param_state list" where
  "inject_all rnd eta z i [] = Inr []"
| "inject_all rnd eta z i (p # ps) =
     (case inject_param rnd eta (z i) p of
        Inl e \<Rightarrow> Inl e
      | Inr p' \<Rightarrow>
          (case inject_all rnd eta z (Suc i) ps of
             Inl e \<Rightarrow> Inl e
           | Inr ps' \<Rightarrow> Inr (p' # ps')))"

text \<open>
  The effective step size: \<open>lr * p.grad.norm()\<close> is a tensor operation (the Python
  float \<open>lr\<close> converted to the tensor's format), \<open>.item()\<close> turns the result into a
  Python float without changing it, and the sum over the parameters is a sum of Python
  floats that starts at \<open>0\<close>.
\<close>

definition effective_step :: "arith \<Rightarrow> real \<Rightarrow> tensor option list \<Rightarrow> fl" where
  "effective_step ar lr gs =
     foldl (\<lambda>acc g. case g of
                       None \<Rightarrow> acc
                     | Some t \<Rightarrow> fl_add (double ar) acc
                         (fl_mul (single ar) (single ar lr) (tensor_norm (single ar) t)))
           (Fin 0) gs"

definition record_effective_step :: "arith \<Rightarrow> real \<Rightarrow> run_state \<Rightarrow> run_state" where
  "record_effective_step ar lr s =
     s\<lparr>effective_step_sizes :=
         effective_step_sizes s @ [effective_step ar lr (map grad_tensor (params s))]\<rparr>"

text \<open>
  \<open>optimizer.step()\<close> updates the weights, which the gradients supplied by
  \<open>backward\<close> stand for; only the number of steps is kept.
\<close>

definition optimizer_step :: "run_state \<Rightarrow> run_state" where
  "optimizer_step s = s\<lparr>optimizer_steps := Suc (optimizer_steps s)\<rparr>"

text \<open>
  \<open>optimizer.zero_grad()\<close>: with \<open>set_to_none\<close> (the default of current torch) it
  sets \<open>p.grad\<close> to \<open>None\<close>; without it (the default of older torch) it fills the
  buffer of \<open>p.grad\<close> with zeros in place.
\<close>

definition zero_grad_param :: "bool \<Rightarrow> param_state \<Rightarrow> param_state" where
  "zero_grad_param set_to_none p =
     (case p_grad p of
        None \<Rightarrow> p
      | Some a \<Rightarrow>
          if set_to_none then p\<lparr>p_grad := None\<rparr>
          else p\<lparr>p_buffers := (p_buffers p)[a := zeros_like (p_buffers p ! a)]\<rparr>)"

definition zero_grad :: "bool \<Rightarrow> run_state \<Rightarrow> run_state" where
  "zero_grad set_to_none s = s\<lparr>params := map (zero_grad_param set_to_none) (params s)\<rparr>"

text \<open>
  One iteration of the loop over \<open>epoch\<close>. The test \<open>(epoch + 1) % gradient_accumulation_steps\<close>
  raises \<open>ZeroDivisionError\<close> for a zero count; Python's \<open>%\<close> on integers takes the sign
  of the divisor, as \<open>mod\<close> does.
\<close>

definition run_epoch ::
  "arith \<Rightarrow> bool \<Rightarrow> int \<Rightarrow> real \<Rightarrow> real \<Rightarrow> bool \<Rightarrow> (nat \<Rightarrow> nat \<Rightarrow> real) \<Rightarrow> (nat \<Rightarrow> nat \<Rightarrow> real)
   \<Rightarrow> nat \<Rightarrow> run_state \<Rightarrow> error + run_state" where
  "run_epoch ar use_noise_injection gradient_accumulation_steps eta lr set_to_none bwd randn epoch s =
     (let ps1 = map collect_param (backward (single ar) bwd (params s))
      in if gradient_accumulation_steps = 0 then Inl ZeroDivisionError
         else if (int epoch + 1) mod gradient_accumulation_steps = 0 then
           (case (if use_noise_injection then inject_all (single ar) eta randn 0 ps1
                  else Inr ps1) of
              Inl e \<Rightarrow> Inl e
            | Inr ps2 \<Rightarrow>
                Inr (zero_grad set_to_none
                      (optimizer_step (record_effective_step ar lr (s\<lparr>params := ps2\<rparr>)))))
         else Inr (s\<lparr>params := ps1\<rparr>))"

fun run_epochs ::
  "arith \<Rightarrow> bool \<Rightarrow> int \<Rightarrow> real \<Rightarrow> real \<Rightarrow> bool \<Rightarrow> (nat \<Rightarrow> nat \<Rightarrow> nat \<Rightarrow> real)
   \<Rightarrow> (nat \<Rightarrow> nat \<Rightarrow> nat \<Rightarrow> real) \<Rightarrow> nat list \<Rightarrow> run_state \<Rightarrow> error + run_state" where
  "run_epochs ar use_noise_injection gas eta lr set_to_none bwd randn [] s = Inr s"
| "run_epochs ar use_noise_injection gas eta lr set_to_none bwd randn (epoch # epochs) s =
     (case run_epoch ar use_noise_injection gas eta lr set_to_none (bwd epoch) (randn epoch) epoch s of
        Inl e \<Rightarrow> Inl e
      | Inr s' \<Rightarrow> run_epochs ar use_noise_injection gas eta lr set_to_none bwd randn epochs s')"

text \<open>
  The whole function, up to its return value; the learning rate is the \<open>lr=1e-3\<close> of
  the optimizer. \<open>final_state\<close> is the state of the loop when it ends.
\<close>

definition final_state ::
  "arith \<Rightarrow> bool \<Rightarrow> nat \<Rightarrow> int \<Rightarrow> real \<Rightarrow> bool \<Rightarrow> (nat \<Rightarrow> nat \<Rightarrow> nat \<Rightarrow> real)
   \<Rightarrow> (nat \<Rightarrow> nat \<Rightarrow> nat \<Rightarrow> real) \<Rightarrow> error + run_state" where
  "final_state ar use_noise_injection num_epochs gradient_accumulation_steps eta set_to_none bwd randn =
     run_epochs ar use_noise_injection gradient_accumulation_steps eta (1 / 1000) set_to_none
       bwd randn [0..<num_epochs] init_state"


subsection \<open>Well-formed parameter states\<close>

text \<open>
  Every buffer has the size of the parameter, and \<open>p.grad\<close> and the snapshots refer to
  buffers that exist.
\<close>

definition param_ok :: "param_state \<Rightarrow> bool" where
  "param_ok p =
     (list_all (\<lambda>b. length b = p_numel p) (p_buffers p)
      \<and> (case p_grad p of None \<Rightarrow> True | Some a \<Rightarrow> a < length (p_buffers p))
      \<and> list_all (\<lambda>a. a < length (p_buffers p)) (p_snapshots p))"

text \<open>Whether the iteration \<open>epoch\<close> ends an accumulation window, and how many do.\<close>

definition is_boundary :: "int \<Rightarrow> nat \<Rightarrow> bool" where
  "is_boundary gas epoch = ((int epoch + 1) mod gas = 0)"

definition boundaries :: "int \<Rightarrow> nat list \<Rightarrow> nat" where
  "boundaries gas epochs = length (filter (is_boundary gas) epochs)"

section \<open>The training loop of \<open>main\<close>\<close>









section \<open>Metric computation with retries\<close>

text \<open>
  \<open>compute_with_retry\<close> of \<open>run_glue_baselines2.py\<close>. An exception carries its
  message; \<open>FailedAfter n\<close> is the \<open>Exception\<close> with the message
  \<open>Failed to compute metric after n attempts\<close>, and \<open>OtherExn\<close> stands for any exception
  that is not a \<open>ValueError\<close>.
\<close>

datatype exn = ValueErr string | NameErr string | OverflowErr | FailedAfter int | OtherExn string

datatype 'a outcome = Returns 'a | Raises exn

text \<open>What the function does besides returning: calls of \<open>metric.compute()\<close>, printed
  lines (attempt number and waiting time) and sleeps.\<close>

datatype effect = Compute | Print nat fl | Sleep fl

text \<open>
  The names bound in the global namespace of the module when \<open>main\<close> runs: the imports
  at the top of the file and ahead of \<open>main\<close>, the three module-level variables, and the
  functions and classes. The function body refers to the globals \<open>random\<close> and \<open>time\<close>.
\<close>

definition module_globals :: "string list" where
  "module_globals =
     [''copy'', ''argparse'', ''json'', ''logging'', ''math'', ''os'', ''random'', ''Path'',
      ''pathlib'', ''datasets'', ''evaluate'', ''torch'', ''nn'', ''Accelerator'', ''get_logger'',
      ''set_seed'', ''load_dataset'', ''HfApi'', ''DataLoader'', ''tqdm'', ''transformers'',
      ''AutoConfig'', ''AutoModelForSequenceClassification'', ''AutoTokenizer'',
      ''DataCollatorWithPadding'', ''PretrainedConfig'', ''SchedulerType'',
      ''default_data_collator'', ''get_scheduler'', ''check_min_version'',
      ''send_example_telemetry'', ''require_version'', ''create_model'', ''logger'',
      ''task_to_keys'', ''parse_args'', ''F'', ''BCEWithLogitsLoss'', ''CrossEntropyLoss'',
      ''MSELoss'', ''PerturbedEnsembleModel'', ''EnsembleModel'', ''cosine_similarity'',
      ''n_cosine_similarity'', ''kl_convergence'', ''WeightedSum'', ''LogitsTransformer'',
      ''soft_voting'', ''GatedMixtureOfExperts'', ''AdaBoostCombiner'', ''get_gradient_norm'',
      ''compute_with_retry'', ''uuid'', ''main'']"

text \<open>The test \<open>needle in haystack\<close> on strings.\<close>

fun is_prefix :: "string \<Rightarrow> string \<Rightarrow> bool" where
  "is_prefix [] ys = True"
| "is_prefix (x # xs) [] = False"
| "is_prefix (x # xs) (y # ys) = (x = y \<and> is_prefix xs ys)"

fun contains :: "string \<Rightarrow> string \<Rightarrow> bool" where
  "contains needle [] = (needle = [])"
| "contains needle (c # cs) = (is_prefix needle (c # cs) \<or> contains needle cs)"

text \<open>
  \<open>wait_time = initial_wait * (2 ** attempt) + random.uniform(0, 1)\<close>: the product of
  integers is exact, its conversion to a Python float raises \<open>OverflowError\<close> when it is
  out of range, and the sum is a sum of Python floats. The draw of \<open>random.uniform\<close> is
  an input.
\<close>

definition wait_time :: "int \<Rightarrow> nat \<Rightarrow> real \<Rightarrow> exn + fl" where
  "wait_time initial_wait attempt jitter =
     (case binary64 (of_int (initial_wait * 2 ^ attempt)) of
        Fin w \<Rightarrow> Inr (fl_add binary64 (Fin w) (Fin jitter))
      | _ \<Rightarrow> Inl OverflowErr)"

text \<open>
  The loop \<open>for attempt in range(max_retries)\<close>. The \<open>k\<close>-th call of \<open>metric.compute()\<close>
  returns or raises \<open>metric k\<close>; there is one call per attempt. The result is the list of
  effects and, when the loop is left by \<open>return\<close> or by an exception, what it returned or
  raised. Looking up the global \<open>time\<close> raises \<open>NameError\<close> when the module does not bind
  it.
\<close>

fun retry_loop ::
  "(nat \<Rightarrow> 'a outcome) \<Rightarrow> int \<Rightarrow> (nat \<Rightarrow> real) \<Rightarrow> nat list \<Rightarrow> effect list
   \<Rightarrow> effect list \<times> (exn + 'a) option" where
  "retry_loop metric initial_wait jitter [] effs = (effs, None)"
| "retry_loop metric initial_wait jitter (attempt # attempts) effs =
     (case metric attempt of
        Returns v \<Rightarrow> (effs @ [Compute], Some (Inr v))
      | Raises (ValueErr msg) \<Rightarrow>
          if contains ''Please specify an experiment_id'' msg then
            (case wait_time initial_wait attempt (jitter attempt) of
               Inl e \<Rightarrow> (effs @ [Compute], Some (Inl e))
             | Inr w \<Rightarrow>
                 if ''time'' \<in> set module_globals
                 then retry_loop metric initial_wait jitter attempts
                        (effs @ [Compute, Print (attempt + 1) w, Sleep w])
                 else (effs @ [Compute, Print (attempt + 1) w], Some (Inl (NameErr ''time''))))
          else (effs @ [Compute], Some (Inl (ValueErr msg)))
      | Raises e \<Rightarrow> (effs @ [Compute], Some (Inl e)))"

definition compute_with_retry ::
  "(nat \<Rightarrow> 'a outcome) \<Rightarrow> int \<Rightarrow> int \<Rightarrow> (nat \<Rightarrow> real) \<Rightarrow> effect list \<times> (exn + 'a)" where
  "compute_with_retry metric max_retries initial_wait jitter =
     (case retry_loop metric initial_wait jitter [0..<nat max_retries] [] of
        (effs, Some r) \<Rightarrow> (effs, r)
      | (effs, None) \<Rightarrow> (effs, Inl (FailedAfter max_retries)))"

section \<open>Proofs\<close>

subsection \<open>Rounding\<close>

lemma pow2_powi: "pow2 e = 2 powi e"
  by (simp add: pow2_def power_int_def power_inverse [symmetric] inverse_eq_divide power_divide)

lemma pow2_pos: "0 < pow2 e"
  by (simp add: pow2_def)

lemma pow2_mono: "a \<le> b \<Longrightarrow> pow2 a \<le> pow2 b"
  unfolding pow2_powi by (rule power_int_increasing) simp_all

lemma pow2_add: "pow2 (a + b) = pow2 a * pow2 b"
  unfolding pow2_powi by (rule power_int_add) simp

lemma pow2_nat: "pow2 (int n) = 2 ^ n"
  by (simp add: pow2_def)

lemma exponent_from_eq:
  assumes "emin \<le> k" "k \<le> e" "k = emin \<or> pow2 k \<le> a" "a < pow2 (k + 1)"
  shows "exponent_from emin e a = k"
  using assms(2)
proof (induction "nat (e - k)" arbitrary: e)
  case 0
  then have "e = k" by simp
  then show ?case using assms(3) by (subst exponent_from.simps) auto
next
  case (Suc n)
  then have e: "k + 1 \<le> e" "n = nat (e - 1 - k)" "k \<le> e - 1" by linarith+
  have "pow2 (k + 1) \<le> pow2 e" using e(1) by (rule pow2_mono)
  with assms(4) have "\<not> pow2 e \<le> a" by simp
  moreover have "\<not> e \<le> emin" using e(1) assms(1) by simp
  ultimately have "exponent_from emin e a = exponent_from emin (e - 1) a"
    by (subst exponent_from.simps) simp
  also have "\<dots> = k" using e(2,3) by (rule Suc.hyps(1))
  finally show ?case .
qed

lemma round_ieee_eval:
  assumes "x \<noteq> 0" "1 - emax \<le> k" "k \<le> emax" "k = 1 - emax \<or> pow2 k \<le> \<bar>x\<bar>"
    "\<bar>x\<bar> < pow2 (k + 1)"
  shows "round_ieee p emax x =
     (let q = pow2 (k - int p + 1);
          y = of_int (round_even (\<bar>x\<bar> / q)) * q
      in if pow2 (emax + 1) \<le> y then (if 0 < x then PInf else NInf)
         else Fin (if 0 < x then y else - y))"
  unfolding round_ieee_def Let_def exponent_from_eq [OF assms(2,3,4,5)]
  using assms(1) by simp

lemma round_even_ge_floor: "\<lfloor>r\<rfloor> \<le> round_even r"
  by (simp add: round_even_def Let_def)

lemma round_even_of_int [simp]: "round_even (of_int n) = n"
  by (simp add: round_even_def Let_def)

lemma round_ieee_overflow:
  assumes "pow2 (emax + 1) \<le> \<bar>x\<bar>"
  shows "round_ieee p emax x = (if 0 < x then PInf else NInf)"
proof -
  define a where "a = \<bar>x\<bar>"
  define q where "q = pow2 (emax - int p + 1)"
  define t where "t = pow2 (emax + 1)"
  have x0: "x \<noteq> 0" using assms pow2_pos [of "emax + 1"] by auto
  have "pow2 emax \<le> pow2 (emax + 1)" by (rule pow2_mono) simp
  with assms have "pow2 emax \<le> a" by (simp add: a_def)
  then have e: "exponent_from (1 - emax) emax a = emax"
    by (subst exponent_from.simps) simp
  have q: "0 < q" unfolding q_def by (rule pow2_pos)
  have "pow2 (int p + (emax - int p + 1)) = pow2 (int p) * q"
    unfolding q_def by (rule pow2_add)
  moreover have "int p + (emax - int p + 1) = emax + 1" by simp
  ultimately have "t = pow2 (int p) * q" unfolding t_def by (simp only:)
  then have split: "t = 2 ^ p * q" by (simp only: pow2_nat)
  have "t \<le> a" using assms by (simp add: t_def a_def)
  with split q have "2 ^ p \<le> a / q" by (simp add: pos_le_divide_eq)
  then have "(2 ^ p :: int) \<le> \<lfloor>a / q\<rfloor>" by (simp add: le_floor_iff)
  with round_even_ge_floor [of "a / q"] have "(2 ^ p :: int) \<le> round_even (a / q)" by simp
  then have "real_of_int (2 ^ p) \<le> of_int (round_even (a / q))"
    by (simp only: of_int_le_iff)
  then have "(2 ^ p :: real) \<le> of_int (round_even (a / q))" by simp
  then have "2 ^ p * q \<le> of_int (round_even (a / q)) * q"
    using q by (simp add: mult_right_mono)
  then have big: "t \<le> of_int (round_even (a / q)) * q" by (simp only: split)
  have "round_ieee p emax x =
      (if t \<le> of_int (round_even (a / q)) * q then (if 0 < x then PInf else NInf)
       else Fin (if 0 < x then of_int (round_even (a / q)) * q
                 else - (of_int (round_even (a / q)) * q)))"
    unfolding round_ieee_def Let_def a_def [symmetric] e q_def [symmetric] t_def [symmetric]
    using x0 by simp
  with big show ?thesis by simp
qed

lemma binary32_0: "binary32 0 = Fin 0"
  by (simp add: binary32_def round_ieee_def)


lemma single_ieee_0: "single ieee 0 = Fin 0"
  by (simp add: ieee_def binary32_0)

lemma single_exact: "single exact = Fin"
  by (simp add: exact_def)


lemma representable_exact: "representable Fin x"
  by (simp add: representable_def)

subsection \<open>Some values and roundings of binary32\<close>

lemma binary32_7: "binary32 7 = Fin 7"
  unfolding binary32_def
  by (subst round_ieee_eval [where k = 2]) (simp_all add: pow2_def round_even_def Let_def)

lemma binary32_9: "binary32 9 = Fin 9"
  unfolding binary32_def
  by (subst round_ieee_eval [where k = 3]) (simp_all add: pow2_def round_even_def Let_def)

lemma binary32_3: "binary32 3 = Fin 3"
  unfolding binary32_def
  by (subst round_ieee_eval [where k = 1]) (simp_all add: pow2_def round_even_def Let_def)

lemma binary32_4: "binary32 4 = Fin 4"
  unfolding binary32_def
  by (subst round_ieee_eval [where k = 2]) (simp_all add: pow2_def round_even_def Let_def)

lemma binary32_5: "binary32 5 = Fin 5"
  unfolding binary32_def
  by (subst round_ieee_eval [where k = 2]) (simp_all add: pow2_def round_even_def Let_def)

lemma binary32_16: "binary32 16 = Fin 16"
  unfolding binary32_def
  by (subst round_ieee_eval [where k = 4]) (simp_all add: pow2_def round_even_def Let_def)

lemma binary32_25: "binary32 25 = Fin 25"
  unfolding binary32_def
  by (subst round_ieee_eval [where k = 4]) (simp_all add: pow2_def round_even_def Let_def)

lemma sqrt_25: "sqrt 25 = 5"
proof -
  have "sqrt 25 = sqrt (5\<^sup>2)" by simp
  then show ?thesis by (simp only: real_sqrt_abs abs_numeral)
qed

lemma binary32_2p127: "binary32 (2 ^ 127) = Fin (2 ^ 127)"
  unfolding binary32_def
  by (subst round_ieee_eval [where k = 127]) (simp_all add: pow2_def round_even_def Let_def)

lemma binary32_2p254: "binary32 (2 ^ 254) = PInf"
  unfolding binary32_def
  by (subst round_ieee_overflow) (simp_all add: pow2_def)


lemma binary32_2p127_numeral: "binary32 170141183460469231731687303715884105728 = Fin 170141183460469231731687303715884105728"
  using binary32_2p127 by simp

lemma binary32_2p254_numeral: "binary32 28948022309329048855892746252171976963317496166410141009864396001978282409984 = PInf"
  using binary32_2p254 by simp




subsection \<open>Online variance\<close>

lemma map2_fl_sub_Fin: "map2 (fl_sub Fin) (map Fin a) (map Fin b) = map Fin (map2 (-) a b)"
  by (simp add: zip_map_map split_def)

lemma map2_fl_add_Fin: "map2 (fl_add Fin) (map Fin a) (map Fin b) = map Fin (map2 (+) a b)"
  by (simp add: zip_map_map split_def)

lemma map2_fl_mul_Fin: "map2 (fl_mul Fin) (map Fin a) (map Fin b) = map Fin (map2 (*) a b)"
  by (simp add: zip_map_map split_def)

lemma map_fl_div_count_Fin:
  "k \<noteq> 0 \<Longrightarrow> map (\<lambda>d. fl_div_count Fin d k) (map Fin a) = map Fin (map (\<lambda>x. x / real k) a)"
  by simp

lemma variance_update_Fin:
  assumes "length m = length x"
  shows "variance_update Fin \<lparr>vs_n = k, vs_mean = Some (map Fin m), vs_M2 = Some (map Fin q)\<rparr> (map Fin x)
         = Inr \<lparr>vs_n = Suc k, vs_mean = Some (map Fin (welford_mean k m x)),
                vs_M2 = Some (map Fin (welford_M2 k m q x))\<rparr>"
  using assms
  by (simp add: variance_update_def np_broadcast_to_def welford_mean_def welford_M2_def
      map2_fl_sub_Fin map2_fl_add_Fin map2_fl_mul_Fin map_fl_div_count_Fin Let_def
      del: map_map)

lemma variance_update_empty:
  "variance_update Fin empty_state (map Fin x)
   = variance_update Fin \<lparr>vs_n = 0, vs_mean = Some (map Fin (replicate (length x) 0)),
                      vs_M2 = Some (map Fin (replicate (length x) 0))\<rparr> (map Fin x)"
  by (simp add: variance_update_def empty_state_def zeros_like_def)

lemma welford_mean_length: "length m = length x \<Longrightarrow> length (welford_mean k m x) = length x"
  by (simp add: welford_mean_def)

lemma welford_M2_length:
  "length m = length x \<Longrightarrow> length q = length x \<Longrightarrow> length (welford_M2 k m q x) = length x"
  by (simp add: welford_M2_def welford_mean_def)

lemma welford_mean_nth:
  "length m = length x \<Longrightarrow> j < length x \<Longrightarrow>
   welford_mean k m x ! j = m ! j + (x ! j - m ! j) / real (Suc k)"
  by (simp add: welford_mean_def)

lemma welford_M2_nth:
  "length m = length x \<Longrightarrow> length q = length x \<Longrightarrow> j < length x \<Longrightarrow>
   welford_M2 k m q x ! j = q ! j + (x ! j - m ! j) * (x ! j - welford_mean k m x ! j)"
  by (simp add: welford_M2_def welford_mean_length) 

lemma welford_mean_step:
  fixes m x a :: real
  assumes "real k * m = a"
  shows "real (Suc k) * (m + (x - m) / real (Suc k)) = a + x"
  using assms by (simp add: field_simps)

lemma welford_M2_aux:
  fixes c m x :: real
  assumes "c \<noteq> 0"
  shows "(x - m) * (x - (m + (x - m) / c)) - (c - 1) * m\<^sup>2 = x\<^sup>2 - c * (m + (x - m) / c)\<^sup>2"
  using assms by (simp add: field_simps power2_eq_square)

lemma welford_M2_step:
  fixes m x a b q :: real
  assumes "q = b - real k * m\<^sup>2"
  shows "q + (x - m) * (x - (m + (x - m) / real (Suc k)))
         = b + x\<^sup>2 - real (Suc k) * (m + (x - m) / real (Suc k))\<^sup>2"
proof -
  have "(x - m) * (x - (m + (x - m) / real (Suc k))) - (real (Suc k) - 1) * m\<^sup>2
        = x\<^sup>2 - real (Suc k) * (m + (x - m) / real (Suc k))\<^sup>2"
    by (rule welford_M2_aux) simp
  moreover have "real (Suc k) - 1 = real k" by simp
  ultimately show ?thesis using assms by simp
qed

lemma variance_loop_Fin:
  assumes "\<forall>x\<in>set xs. length x = d" "length m = d" "length q = d"
    "\<forall>j<d. real k * m ! j = a j \<and> q ! j = b j - real k * (m ! j)\<^sup>2"
  shows "\<exists>m' q'. variance_loop Fin \<lparr>vs_n = k, vs_mean = Some (map Fin m), vs_M2 = Some (map Fin q)\<rparr>
                    (map (map Fin) xs)
           = Inr \<lparr>vs_n = k + length xs, vs_mean = Some (map Fin m'), vs_M2 = Some (map Fin q')\<rparr>
         \<and> length m' = d \<and> length q' = d
         \<and> (\<forall>j<d. real (k + length xs) * m' ! j = a j + col_sum xs j
                 \<and> q' ! j = b j + col_sumsq xs j - real (k + length xs) * (m' ! j)\<^sup>2)"
  using assms
proof (induction xs arbitrary: k m q a b)
  case Nil
  then show ?case
    by (intro exI [of _ m] exI [of _ q]) (simp add: col_sum_def col_sumsq_def)
next
  case (Cons x xs)
  let ?m1 = "welford_mean k m x" and ?q1 = "welford_M2 k m q x"
  from Cons.prems have len: "length x = d" "length m = length x" "length q = length x"
    by simp_all
  have upd: "variance_update Fin \<lparr>vs_n = k, vs_mean = Some (map Fin m), vs_M2 = Some (map Fin q)\<rparr>
               (map Fin x)
             = Inr \<lparr>vs_n = Suc k, vs_mean = Some (map Fin ?m1), vs_M2 = Some (map Fin ?q1)\<rparr>"
    using len by (simp add: variance_update_Fin)
  have l1: "length ?m1 = d" "length ?q1 = d"
    using len by (simp_all add: welford_mean_length welford_M2_length)
  have inv1: "\<forall>j<d. real (Suc k) * ?m1 ! j = a j + x ! j
                 \<and> ?q1 ! j = (b j + (x ! j)\<^sup>2) - real (Suc k) * (?m1 ! j)\<^sup>2"
  proof (intro allI impI)
    fix j assume j: "j < d"
    with Cons.prems(4) have a: "real k * m ! j = a j" and b: "q ! j = b j - real k * (m ! j)\<^sup>2"
      by simp_all
    have mj: "?m1 ! j = m ! j + (x ! j - m ! j) / real (Suc k)"
      using len j by (simp add: welford_mean_nth)
    have qj: "?q1 ! j = q ! j + (x ! j - m ! j) * (x ! j - ?m1 ! j)"
      using len j by (simp add: welford_M2_nth)
    show "real (Suc k) * ?m1 ! j = a j + x ! j
          \<and> ?q1 ! j = (b j + (x ! j)\<^sup>2) - real (Suc k) * (?m1 ! j)\<^sup>2"
      unfolding qj unfolding mj
      using welford_mean_step [OF a, of "x ! j"] welford_M2_step [OF b, of "x ! j"]
      by simp
  qed
  from Cons.prems(1) have rest: "\<forall>y\<in>set xs. length y = d" by simp
  from Cons.IH [OF rest l1 inv1] obtain m' q' where
    run: "variance_loop Fin \<lparr>vs_n = Suc k, vs_mean = Some (map Fin ?m1), vs_M2 = Some (map Fin ?q1)\<rparr>
            (map (map Fin) xs)
          = Inr \<lparr>vs_n = Suc k + length xs, vs_mean = Some (map Fin m'), vs_M2 = Some (map Fin q')\<rparr>"
    and l': "length m' = d" "length q' = d"
    and inv': "\<forall>j<d. real (Suc k + length xs) * m' ! j = a j + x ! j + col_sum xs j
                 \<and> q' ! j = b j + (x ! j)\<^sup>2 + col_sumsq xs j - real (Suc k + length xs) * (m' ! j)\<^sup>2"
    by blast
  have "variance_loop Fin \<lparr>vs_n = k, vs_mean = Some (map Fin m), vs_M2 = Some (map Fin q)\<rparr>
          (map (map Fin) (x # xs))
        = Inr \<lparr>vs_n = k + length (x # xs), vs_mean = Some (map Fin m'), vs_M2 = Some (map Fin q')\<rparr>"
    using upd run by simp
  moreover have "\<forall>j<d. real (k + length (x # xs)) * m' ! j = a j + col_sum (x # xs) j
                 \<and> q' ! j = b j + col_sumsq (x # xs) j - real (k + length (x # xs)) * (m' ! j)\<^sup>2"
    using inv' by (simp add: col_sum_def col_sumsq_def add.assoc)
  ultimately show ?case using l' by blast
qed

lemma variance_loop_empty_Cons:
  "variance_loop Fin empty_state (map (map Fin) (x # xs))
   = variance_loop Fin \<lparr>vs_n = 0, vs_mean = Some (map Fin (replicate (length x) 0)),
                     vs_M2 = Some (map Fin (replicate (length x) 0))\<rparr> (map (map Fin) (x # xs))"
  using variance_update_empty [of x] by simp

lemma sum_sq_dev:
  fixes c :: real
  shows "(\<Sum>y\<leftarrow>ys. (y - c)\<^sup>2) = (\<Sum>y\<leftarrow>ys. y\<^sup>2) - 2 * c * sum_list ys + real (length ys) * c\<^sup>2"
  by (induction ys) (simp_all add: algebra_simps power2_eq_square)

lemma variance_loop_sums:
  assumes "xs \<noteq> []" "\<forall>x\<in>set xs. length x = d"
  shows "\<exists>m q. variance_loop Fin empty_state (map (map Fin) xs)
           = Inr \<lparr>vs_n = length xs, vs_mean = Some (map Fin m), vs_M2 = Some (map Fin q)\<rparr>
         \<and> length m = d \<and> length q = d
         \<and> (\<forall>j<d. real (length xs) * m ! j = col_sum xs j
                 \<and> q ! j = col_sumsq xs j - real (length xs) * (m ! j)\<^sup>2)"
proof -
  from assms(1) obtain x xs' where xs: "xs = x # xs'" by (cases xs) auto
  with assms(2) have lx: "length x = d" by simp
  have "\<exists>m' q'. variance_loop Fin \<lparr>vs_n = 0, vs_mean = Some (map Fin (replicate d 0)),
                                vs_M2 = Some (map Fin (replicate d 0))\<rparr> (map (map Fin) xs)
           = Inr \<lparr>vs_n = 0 + length xs, vs_mean = Some (map Fin m'), vs_M2 = Some (map Fin q')\<rparr>
         \<and> length m' = d \<and> length q' = d
         \<and> (\<forall>j<d. real (0 + length xs) * m' ! j = 0 + col_sum xs j
                 \<and> q' ! j = 0 + col_sumsq xs j - real (0 + length xs) * (m' ! j)\<^sup>2)"
    by (rule variance_loop_Fin [OF assms(2)]) simp_all
  then show ?thesis
    using variance_loop_empty_Cons [of x xs'] lx xs by simp
qed

lemma M2_is_sum_sq_dev:
  assumes "ys \<noteq> []" "real (length ys) * m = sum_list ys"
  shows "(\<Sum>y\<leftarrow>ys. y\<^sup>2) - real (length ys) * m\<^sup>2 = (\<Sum>y\<leftarrow>ys. (y - sample_mean ys)\<^sup>2)"
proof -
  have n: "real (length ys) \<noteq> 0" using assms(1) by simp
  have m: "sample_mean ys = m"
    using assms(2) n by (simp add: sample_mean_def field_simps)
  show ?thesis
    unfolding m sum_sq_dev [of m ys] assms(2) [symmetric]
    by (simp add: algebra_simps power2_eq_square)
qed

lemma list_all_is_Fin: "list_all is_Fin t \<Longrightarrow> \<exists>m. t = map Fin m"
proof (induction t)
  case Nil
  then show ?case by simp
next
  case (Cons v t)
  then obtain m where "t = map Fin m" by auto
  moreover from Cons.prems obtain a where "v = Fin a" by (cases v) auto
  ultimately have "v # t = map Fin (a # m)" by simp
  then show ?case by (rule exI)
qed

lemma list_all_fl_nonneg:
  "list_all is_Fin t \<Longrightarrow> list_all fl_nonneg t
   \<Longrightarrow> \<exists>q. t = map Fin q \<and> (\<forall>v\<in>set q. 0 \<le> v)"
proof (induction t)
  case Nil
  then show ?case by simp
next
  case (Cons v t)
  then obtain q where "t = map Fin q" "\<forall>v\<in>set q. 0 \<le> v" by auto
  moreover from Cons.prems obtain a where "v = Fin a" "0 \<le> a" by (cases v) auto
  ultimately have "v # t = map Fin (a # q) \<and> (\<forall>v\<in>set (a # q). 0 \<le> v)" by simp
  then show ?case by (rule exI)
qed

lemma welford_increment_nonneg:
  fixes m x :: real
  shows "0 \<le> (x - m) * (x - (m + (x - m) / real (Suc k)))"
proof -
  have "x - (m + (x - m) / real (Suc k)) = (x - m) * (real k / real (Suc k))"
    by (simp add: field_simps)
  then have "(x - m) * (x - (m + (x - m) / real (Suc k))) = (x - m)\<^sup>2 * (real k / real (Suc k))"
    by (simp add: power2_eq_square)
  then show ?thesis by simp
qed

lemma welford_M2_nonneg:
  assumes "length m = length x" "length q = length x" "\<forall>v\<in>set q. 0 \<le> v"
  shows "\<forall>v\<in>set (welford_M2 k m q x). 0 \<le> v"
proof
  fix v assume "v \<in> set (welford_M2 k m q x)"
  then obtain j where j: "j < length x" and v: "v = welford_M2 k m q x ! j"
    using assms(1,2) by (auto simp: in_set_conv_nth welford_M2_length)
  have "0 \<le> q ! j" using assms(2,3) j by simp
  moreover have "0 \<le> (x ! j - m ! j) * (x ! j - welford_mean k m x ! j)"
    using welford_increment_nonneg [of "x ! j" "m ! j" k] assms(1) j
    by (simp add: welford_mean_nth)
  ultimately show "0 \<le> v"
    using assms(1,2) j by (simp add: v welford_M2_nth)
qed

lemma list_all_Fin_map: "list_all is_Fin (map Fin m)"
  by (simp add: list_all_iff)

lemma list_all_nonneg_map: "list_all fl_nonneg (map Fin q) = (\<forall>v\<in>set q. 0 \<le> v)"
  by (simp add: list_all_iff)

lemma variance_update_preserves:
  assumes "variance_invariant d s" "length x = d"
  shows "\<exists>s'. variance_update Fin s (map Fin x) = Inr s' \<and> vs_n s' = Suc (vs_n s)
              \<and> variance_invariant d s'"
proof (cases "vs_mean s")
  case None
  with assms(1) have "s = empty_state"
    by (simp add: variance_invariant_def empty_state_def)
  moreover have "variance_update Fin empty_state (map Fin x)
       = Inr \<lparr>vs_n = Suc 0, vs_mean = Some (map Fin (welford_mean 0 (replicate (length x) 0) x)),
              vs_M2 = Some (map Fin (welford_M2 0 (replicate (length x) 0) (replicate (length x) 0) x))\<rparr>"
    unfolding variance_update_empty by (rule variance_update_Fin) simp
  moreover have "\<forall>v\<in>set (welford_M2 0 (replicate (length x) 0) (replicate (length x) 0) x). 0 \<le> v"
    by (rule welford_M2_nonneg) simp_all
  ultimately show ?thesis
    using assms(2)
    by (simp add: variance_invariant_def empty_state_def welford_mean_length welford_M2_length
        list_all_Fin_map list_all_nonneg_map del: map_map)
next
  case (Some t)
  with assms(1) obtain u where u: "vs_M2 s = Some u" and len: "length t = d" "length u = d"
    and fin: "list_all is_Fin t" and finu: "list_all is_Fin u" and nn: "list_all fl_nonneg u"
    by (auto simp: variance_invariant_def split: option.splits)
  from fin obtain m where m: "t = map Fin m" using list_all_is_Fin by blast
  from finu nn obtain q where q: "u = map Fin q" "\<forall>v\<in>set q. 0 \<le> v"
    using list_all_fl_nonneg by blast
  have s: "s = \<lparr>vs_n = vs_n s, vs_mean = Some (map Fin m), vs_M2 = Some (map Fin q)\<rparr>"
    using Some u m q by simp
  have lm: "length m = length x" "length q = length x" using len m q assms(2) by simp_all
  have "variance_update Fin s (map Fin x)
       = Inr \<lparr>vs_n = Suc (vs_n s), vs_mean = Some (map Fin (welford_mean (vs_n s) m x)),
              vs_M2 = Some (map Fin (welford_M2 (vs_n s) m q x))\<rparr>"
    by (subst s) (rule variance_update_Fin [OF lm(1)])
  moreover have "\<forall>v\<in>set (welford_M2 (vs_n s) m q x). 0 \<le> v"
    using lm q(2) by (rule welford_M2_nonneg)
  ultimately show ?thesis
    using lm assms(2)
    by (simp add: variance_invariant_def welford_mean_length welford_M2_length
        list_all_Fin_map list_all_nonneg_map del: map_map)
qed

lemma variance_loop_preserves:
  assumes "variance_invariant d s" "\<forall>x\<in>set xs. length x = d"
  shows "\<exists>s'. variance_loop Fin s (map (map Fin) xs) = Inr s' \<and> vs_n s' = vs_n s + length xs
              \<and> variance_invariant d s'"
  using assms
proof (induction xs arbitrary: s)
  case Nil
  then show ?case by simp
next
  case (Cons x xs)
  then have "length x = d" by simp
  with Cons.prems(1) obtain s1 where
    s1: "variance_update Fin s (map Fin x) = Inr s1" "vs_n s1 = Suc (vs_n s)" "variance_invariant d s1"
    using variance_update_preserves by blast
  from Cons.prems(2) have "\<forall>y\<in>set xs. length y = d" by simp
  with Cons.IH [OF s1(3)] obtain s' where
    "variance_loop Fin s1 (map (map Fin) xs) = Inr s'" "vs_n s' = vs_n s1 + length xs"
    "variance_invariant d s'"
    by blast
  then show ?case using s1 by simp
qed

text \<open>
  Claim C8. In exact arithmetic, the state reached from the empty state by folding any
  finite sequence of finite samples of shape \<open>d\<close> through the update has the count of
  the samples seen and satisfies the invariant: mean and \<open>M2\<close> have shape \<open>d\<close> and
  \<open>M2\<close> is entrywise a finite non-negative number. Each update preserves it (\<open>variance_update_preserves\<close>)
  because each increment is non-negative (\<open>welford_increment_nonneg\<close>).
\<close>

theorem C8_variance_state_invariant:
  assumes "\<forall>x\<in>set xs. length x = d"
  shows "\<exists>s. variance_loop (single exact) empty_state (map (map Fin) xs) = Inr s
             \<and> vs_n s = length xs \<and> variance_invariant d s"
proof -
  have "variance_invariant d empty_state"
    by (simp add: variance_invariant_def empty_state_def)
  from variance_loop_preserves [OF this assms] show ?thesis
    by (simp add: empty_state_def exact_def)
qed

text \<open>Two samples of shape 2: the state reached, and the invariant on it.\<close>

theorem C8_variance_state_invariant_witness:
  "variance_loop (single exact) empty_state [[Fin 1, Fin 2], [Fin 3, Fin 6]]
     = Inr \<lparr>vs_n = 2, vs_mean = Some [Fin 2, Fin 4], vs_M2 = Some [Fin 2, Fin 8]\<rparr>
   \<and> variance_invariant 2 \<lparr>vs_n = 2, vs_mean = Some [Fin 2, Fin 4], vs_M2 = Some [Fin 2, Fin 8]\<rparr>"
  using C8_variance_state_invariant [of "[[1, 2], [3, 6]]" 2]
  by (simp add: variance_update_def empty_state_def np_broadcast_to_def zeros_like_def
      numeral_2_eq_2 exact_def)


subsection \<open>Streaming and two-pass variance\<close>

text \<open>Without rounding the streaming result is the two-pass sample variance.\<close>

lemma streaming_variance_exact:
  assumes "xs \<noteq> []" "\<forall>x\<in>set xs. length x = d"
  shows "compute_variance_online Fin (map (map Fin) xs)
         = Inr (map Fin (if length xs > 1 then two_pass_variance d xs else replicate d 0))"
proof -
  from variance_loop_sums [OF assms] obtain m q where
    run: "variance_loop Fin empty_state (map (map Fin) xs)
           = Inr \<lparr>vs_n = length xs, vs_mean = Some (map Fin m), vs_M2 = Some (map Fin q)\<rparr>"
    and l: "length m = d" "length q = d"
    and inv: "\<forall>j<d. real (length xs) * m ! j = col_sum xs j
                 \<and> q ! j = col_sumsq xs j - real (length xs) * (m ! j)\<^sup>2"
    by blast
  have ssd: "q ! j = (\<Sum>y\<leftarrow>map (\<lambda>x. x ! j) xs. (y - sample_mean (map (\<lambda>x. x ! j) xs))\<^sup>2)"
    if "j < d" for j
  proof -
    let ?ys = "map (\<lambda>x. x ! j) xs"
    have "?ys \<noteq> []" using assms(1) by simp
    moreover have "real (length ?ys) * m ! j = sum_list ?ys"
      using inv that by (simp add: col_sum_def)
    ultimately have "(\<Sum>y\<leftarrow>?ys. y\<^sup>2) - real (length ?ys) * (m ! j)\<^sup>2
                     = (\<Sum>y\<leftarrow>?ys. (y - sample_mean ?ys)\<^sup>2)"
      by (rule M2_is_sum_sq_dev)
    then show ?thesis using inv that by (simp add: col_sumsq_def o_def)
  qed
  show ?thesis
  proof (cases "length xs > 1")
    case True
    have "map (\<lambda>v. v / real (length xs - 1)) q = two_pass_variance d xs"
      using l ssd by (intro nth_equalityI) (simp_all add: two_pass_variance_def two_pass_variance_col_def)
    then show ?thesis
      using True run by (simp add: compute_variance_online_def variance_finalize_def
          map_fl_div_count_Fin del: map_map)
  next
    case False
    with assms(1) obtain x where xs: "xs = [x]" by (cases xs) auto
    have "q = replicate d 0"
      using l ssd by (intro nth_equalityI) (simp_all add: xs sample_mean_def)
    then show ?thesis
      using False run by (simp add: compute_variance_online_def variance_finalize_def)
  qed
qed

text \<open>
  A single sample of values of the format gives the zero tensor in every arithmetic
  that rounds zero to zero: the first mean is the sample itself.
\<close>

lemma single_sample_zero:
  assumes "rnd 0 = Fin 0" "\<forall>v\<in>set x. representable rnd v"
  shows "compute_variance_online rnd [map Fin x] = Inr (replicate (length x) (Fin 0))"
proof -
  have r: "rnd (x ! i) = Fin (x ! i)" if "i < length x" for i
    using assms(2) that by (simp add: representable_def)
  have delta: "map2 (fl_sub rnd) (map Fin x) (replicate (length x) (Fin 0)) = map Fin x"
    by (rule nth_equalityI) (simp_all add: r)
  have mean: "map2 (fl_add rnd) (replicate (length x) (Fin 0))
                (map (\<lambda>d. fl_div_count rnd d (Suc 0)) (map Fin x)) = map Fin x"
    by (rule nth_equalityI) (simp_all add: r)
  have delta2: "map2 (fl_sub rnd) (map Fin x) (map Fin x) = replicate (length x) (Fin 0)"
    by (rule nth_equalityI) (simp_all add: assms(1))
  have M2: "map2 (fl_add rnd) (replicate (length x) (Fin 0))
              (map2 (fl_mul rnd) (map Fin x) (replicate (length x) (Fin 0)))
            = replicate (length x) (Fin 0)"
    by (rule nth_equalityI) (simp_all add: assms(1))
  show ?thesis
    by (simp add: compute_variance_online_def variance_finalize_def variance_update_def
      empty_state_def np_broadcast_to_def zeros_like_def Let_def delta mean delta2 M2
      del: map_map)
qed

text \<open>
  Claim C1. In exact arithmetic, for every non-empty sequence \<open>xs\<close> of finite gradient
  samples of a common shape \<open>d\<close>, \<open>compute_variance_online\<close> returns, entry by
  entry, the two-pass sample variance \<open>(\<Sum>i. (x\<^sub>i - mean)\<^sup>2) / (n - 1)\<close> when there is
  more than one sample, and the zero tensor when there is exactly one. In the binary32
  arithmetic of the numpy arrays the single-sample result is still exactly the zero
  tensor; for more than one sample the rounded result is not the two-pass variance in
  general (\<open>C1_rounding_counterexample\<close>).
\<close>

theorem C1_streaming_variance:
  assumes "xs \<noteq> []" "\<forall>x\<in>set xs. length x = d"
  shows "compute_variance_online (single exact) (map (map Fin) xs)
           = Inr (map Fin (if length xs > 1 then two_pass_variance d xs else replicate d 0))
         \<and> (length xs = 1 \<and> (\<forall>x\<in>set xs. \<forall>v\<in>set x. representable (single ieee) v)
            \<longrightarrow> compute_variance_online (single ieee) (map (map Fin) xs)
                  = Inr (replicate d (Fin 0)))"
proof (intro conjI impI)
  show "compute_variance_online (single exact) (map (map Fin) xs)
        = Inr (map Fin (if length xs > 1 then two_pass_variance d xs else replicate d 0))"
    using streaming_variance_exact [OF assms] by (simp add: single_exact)
next
  assume a: "length xs = 1 \<and> (\<forall>x\<in>set xs. \<forall>v\<in>set x. representable (single ieee) v)"
  then obtain x where xs: "xs = [x]" by (cases xs) auto
  with a assms(2) have "\<forall>v\<in>set x. representable (single ieee) v" "length x = d" by simp_all
  with single_sample_zero [where rnd = "single ieee" and x = x, OF single_ieee_0]
  show "compute_variance_online (single ieee) (map (map Fin) xs) = Inr (replicate d (Fin 0))"
    by (simp add: xs)
qed

text \<open>
  Three samples of shape 2 in exact arithmetic, and a single sample of shape 2 in
  binary32.
\<close>

theorem C1_streaming_variance_witness:
  "compute_variance_online (single exact) [[Fin 1, Fin 2], [Fin 3, Fin 6], [Fin 5, Fin 4]]
     = Inr [Fin 4, Fin 4]
   \<and> compute_variance_online (single ieee) [[Fin 7, Fin 9]] = Inr [Fin 0, Fin 0]"
  using C1_streaming_variance [of "[[1, 2], [3, 6], [5, 4]]" 2]
    C1_streaming_variance [of "[[7, 9]]" 2]
  by (simp add: two_pass_variance_def two_pass_variance_col_def sample_mean_def upt_rec
      numeral_2_eq_2 representable_def ieee_def binary32_7 binary32_9)

text \<open>
  The binary32 roundings met on the two samples \<open>1 + 1 / 2 ^ 23\<close> and \<open>1 + 1 / 2 ^ 22\<close>: both are
  values of the format, and so are their difference and its half; the new mean
  \<open>1 + 1 / 2 ^ 23 + 1 / 2 ^ 24\<close> lies half-way between the two samples and rounds to the even
  one, the second sample.
\<close>

lemma b32_x1: "binary32 (8388609 / 8388608) = Fin (8388609 / 8388608)"
  unfolding binary32_def
  by (subst round_ieee_eval [where k = 0]) (simp_all add: pow2_def round_even_def Let_def)

lemma b32_d: "binary32 (1 / 8388608) = Fin (1 / 8388608)"
  unfolding binary32_def
  by (subst round_ieee_eval [where k = "-23"]) (simp_all add: pow2_def round_even_def Let_def)

lemma b32_h: "binary32 (1 / 16777216) = Fin (1 / 16777216)"
  unfolding binary32_def
  by (subst round_ieee_eval [where k = "-24"]) (simp_all add: pow2_def round_even_def Let_def)

lemma b32_tie: "binary32 (16777219 / 16777216) = Fin (4194305 / 4194304)"
  unfolding binary32_def
  by (subst round_ieee_eval [where k = 0]) (simp_all add: pow2_def round_even_def Let_def)

text \<open>
  In binary32 the code returns the variance 0 for these two samples: the rounded mean
  is the second sample, so \<open>delta2\<close> and the increment of \<open>M2\<close> are zero. Their
  two-pass sample variance is \<open>1 / 2 ^ 47\<close>; the relative error is 1.
\<close>

theorem C1_rounding_counterexample:
  "compute_variance_online (single ieee) [[Fin (1 + 1 / 2 ^ 23)], [Fin (1 + 1 / 2 ^ 22)]]
     = Inr [Fin 0]
   \<and> two_pass_variance 1 [[1 + 1 / 2 ^ 23], [1 + 1 / 2 ^ 22]] = [1 / 2 ^ 47]"
  by (simp add: compute_variance_online_def variance_finalize_def variance_update_def
      empty_state_def np_broadcast_to_def zeros_like_def ieee_def Let_def binary32_0
      b32_x1 b32_d b32_h b32_tie
      two_pass_variance_def two_pass_variance_col_def sample_mean_def power2_eq_square)

subsection \<open>Shapes in the experiment loop\<close>

lemma variance_update_length:
  assumes "length g = d"
    "case vs_mean s of None \<Rightarrow> vs_M2 s = None
     | Some m \<Rightarrow> length m = d \<and> (\<exists>q. vs_M2 s = Some q \<and> length q = d)"
  shows "\<exists>n m q. variance_update rnd s g = Inr \<lparr>vs_n = n, vs_mean = Some m, vs_M2 = Some q\<rparr>
                 \<and> length m = d \<and> length q = d"
  using assms
  by (cases "vs_mean s")
     (auto simp: variance_update_def np_broadcast_to_def zeros_like_def Let_def)

lemma variance_loop_length:
  assumes "list_all (\<lambda>t. length t = d) gs"
    "case vs_mean s of None \<Rightarrow> vs_M2 s = None
     | Some m \<Rightarrow> length m = d \<and> (\<exists>q. vs_M2 s = Some q \<and> length q = d)"
  shows "\<exists>s'. variance_loop rnd s gs = Inr s'
              \<and> (case vs_mean s' of None \<Rightarrow> vs_M2 s' = None \<and> gs = []
                  | Some m \<Rightarrow> length m = d \<and> (\<exists>q. vs_M2 s' = Some q \<and> length q = d))"
  using assms
proof (induction gs arbitrary: s)
  case Nil
  then show ?case by (auto split: option.splits)
next
  case (Cons g gs)
  then have g: "length g = d" and gs: "list_all (\<lambda>t. length t = d) gs" by simp_all
  from variance_update_length [OF g Cons.prems(2)] obtain n m q where
    u: "variance_update rnd s g = Inr \<lparr>vs_n = n, vs_mean = Some m, vs_M2 = Some q\<rparr>"
    "length m = d" "length q = d" by blast
  have "\<exists>s'. variance_loop rnd \<lparr>vs_n = n, vs_mean = Some m, vs_M2 = Some q\<rparr> gs = Inr s'
              \<and> (case vs_mean s' of None \<Rightarrow> vs_M2 s' = None \<and> gs = []
                  | Some m \<Rightarrow> length m = d \<and> (\<exists>q. vs_M2 s' = Some q \<and> length q = d))"
    by (rule Cons.IH [OF gs]) (simp add: u)
  then show ?case using u by (auto split: option.splits)
qed

lemma compute_variance_online_length:
  assumes "gs \<noteq> []" "list_all (\<lambda>t. length t = d) gs"
  shows "\<exists>v. compute_variance_online rnd gs = Inr v \<and> length v = d"
proof -
  have "\<exists>s'. variance_loop rnd empty_state gs = Inr s'
              \<and> (case vs_mean s' of None \<Rightarrow> vs_M2 s' = None \<and> gs = []
                  | Some m \<Rightarrow> length m = d \<and> (\<exists>q. vs_M2 s' = Some q \<and> length q = d))"
    by (rule variance_loop_length [OF assms(2)]) (simp add: empty_state_def)
  then show ?thesis
    using assms(1)
    by (auto simp: compute_variance_online_def variance_finalize_def split: option.splits)
qed

lemma inject_noise_length:
  "length v = length g \<Longrightarrow> \<exists>g'. inject_noise rnd eta g v z = Inr g' \<and> length g' = length g"
  by (simp add: inject_noise_def add_noise_def randn_like_def noise_scale_def)

lemma param_ok_snapshot_tensors:
  assumes "param_ok p"
  shows "list_all (\<lambda>t. length t = p_numel p) (snapshot_tensors p)"
  using assms by (auto simp: param_ok_def snapshot_tensors_def list_all_iff)

lemma param_ok_update:
  assumes "param_ok p" "length g = p_numel p"
  shows "param_ok (p\<lparr>p_buffers := (p_buffers p)[a := g]\<rparr>)"
  using assms
  by (auto simp: param_ok_def list_all_iff split: option.splits
      dest: set_update_subset_insert [THEN subsetD])

lemma inject_param_ok:
  assumes "param_ok p" "p_grad p = None \<or> p_snapshots p \<noteq> []"
  shows "\<exists>p'. inject_param rnd eta z p = Inr p' \<and> param_ok p' \<and> p_numel p' = p_numel p
              \<and> p_grad p' = p_grad p \<and> length (p_buffers p') = length (p_buffers p)"
proof (cases "p_grad p")
  case None
  then show ?thesis using assms(1) by (simp add: inject_param_def)
next
  case (Some a)
  with assms have a: "a < length (p_buffers p)" and ne: "snapshot_tensors p \<noteq> []"
    by (simp_all add: param_ok_def snapshot_tensors_def)
  from a assms(1) have g: "length (p_buffers p ! a) = p_numel p"
    by (simp add: param_ok_def list_all_length)
  from compute_variance_online_length [OF ne param_ok_snapshot_tensors [OF assms(1)]]
  obtain v where v: "compute_variance_online rnd (snapshot_tensors p) = Inr v"
    "length v = p_numel p" by blast
  from inject_noise_length [of v "p_buffers p ! a" rnd eta z] g v(2) obtain g' where
    g': "inject_noise rnd eta (p_buffers p ! a) v z = Inr g'" "length g' = p_numel p" by auto
  have "param_ok (p\<lparr>p_buffers := (p_buffers p)[a := g']\<rparr>)"
    using assms(1) g'(2) by (rule param_ok_update)
  then have "param_ok (p\<lparr>p_snapshots := [], p_buffers := (p_buffers p)[a := g']\<rparr>)"
    by (simp add: param_ok_def split: option.splits)
  then show ?thesis
    using Some v g' by (simp add: inject_param_def)
qed

lemma inject_all_ok:
  assumes "list_all (\<lambda>p. param_ok p \<and> (p_grad p = None \<or> p_snapshots p \<noteq> [])) ps"
  shows "\<exists>ps'. inject_all rnd eta z i ps = Inr ps' \<and> list_all param_ok ps'
               \<and> map p_numel ps' = map p_numel ps"
  using assms
proof (induction ps arbitrary: i)
  case Nil
  then show ?case by simp
next
  case (Cons p ps)
  then have "param_ok p" "p_grad p = None \<or> p_snapshots p \<noteq> []" by simp_all
  from inject_param_ok [OF this] obtain p' where
    p': "inject_param rnd eta (z i) p = Inr p'" "param_ok p'" "p_numel p' = p_numel p" by blast
  from Cons obtain ps' where
    "inject_all rnd eta z (Suc i) ps = Inr ps'" "list_all param_ok ps'"
    "map p_numel ps' = map p_numel ps"
    by fastforce
  then show ?case using p' by simp
qed

lemma backward_param_ok:
  assumes "param_ok p"
  shows "param_ok (backward_param rnd c p) \<and> p_grad (backward_param rnd c p) \<noteq> None
     \<and> p_numel (backward_param rnd c p) = p_numel p
     \<and> p_snapshots (backward_param rnd c p) = p_snapshots p"
proof (cases "p_grad p")
  case None
  then show ?thesis
    using assms by (auto simp: param_ok_def backward_param_def Let_def list_all_iff)
next
  case (Some a)
  with assms have a: "a < length (p_buffers p)" by (simp add: param_ok_def)
  with assms have "length (p_buffers p ! a) = p_numel p"
    by (simp add: param_ok_def list_all_length)
  then have "length (map2 (fl_add rnd) (p_buffers p ! a) (map (\<lambda>j. rnd (c j)) [0..<p_numel p]))
             = p_numel p" by simp
  with assms have "param_ok (p\<lparr>p_buffers := (p_buffers p)
      [a := map2 (fl_add rnd) (p_buffers p ! a) (map (\<lambda>j. rnd (c j)) [0..<p_numel p])]\<rparr>)"
    by (rule param_ok_update)
  then show ?thesis using Some by (simp add: backward_param_def Let_def)
qed

lemma collect_param_ok:
  "param_ok p \<Longrightarrow> param_ok (collect_param p) \<and> p_numel (collect_param p) = p_numel p
     \<and> p_grad (collect_param p) = p_grad p"
  by (auto simp: param_ok_def collect_param_def split: option.splits)

lemma zero_grad_param_ok:
  assumes "param_ok p"
  shows "param_ok (zero_grad_param stn p) \<and> p_numel (zero_grad_param stn p) = p_numel p
     \<and> p_snapshots (zero_grad_param stn p) = p_snapshots p"
proof (cases "p_grad p")
  case None
  then show ?thesis using assms by (simp add: zero_grad_param_def)
next
  case (Some a)
  with assms have a: "a < length (p_buffers p)" by (simp add: param_ok_def)
  with assms have "length (zeros_like (p_buffers p ! a)) = p_numel p"
    by (simp add: param_ok_def list_all_length zeros_like_def)
  with assms have "param_ok (p\<lparr>p_buffers := (p_buffers p)[a := zeros_like (p_buffers p ! a)]\<rparr>)"
    by (rule param_ok_update)
  moreover have "param_ok (p\<lparr>p_grad := None\<rparr>)" using assms by (simp add: param_ok_def)
  ultimately show ?thesis using Some by (simp add: zero_grad_param_def)
qed

lemma collect_backward_snapshots:
  "length (p_snapshots (collect_param (backward_param rnd c p))) = Suc (length (p_snapshots p))"
  by (simp add: collect_param_def backward_param_def Let_def split: option.splits)

lemma backward_set:
  "p' \<in> set (backward rnd c ps) \<Longrightarrow> \<exists>i p. p \<in> set ps \<and> p' = backward_param rnd (c i) p"
proof -
  assume "p' \<in> set (backward rnd c ps)"
  then obtain a where a: "a < length ps" "p' = backward_param rnd (c a) (ps ! a)"
    by (auto simp: backward_def in_set_enumerate_eq)
  then have "ps ! a \<in> set ps \<and> p' = backward_param rnd (c a) (ps ! a)" by simp
  then show ?thesis by blast
qed

lemma backward_length: "length (backward rnd c ps) = length ps"
  by (simp add: backward_def)

lemma backward_nth:
  "i < length ps \<Longrightarrow> backward rnd c ps ! i = backward_param rnd (c i) (ps ! i)"
  by (simp add: backward_def nth_enumerate_eq)

lemma collect_backward_ok:
  assumes "list_all param_ok ps"
  shows "list_all (\<lambda>p. param_ok p \<and> (p_grad p = None \<or> p_snapshots p \<noteq> []))
           (map collect_param (backward rnd c ps))"
proof -
  have "param_ok (collect_param p') \<and> (p_grad (collect_param p') = None \<or> p_snapshots (collect_param p') \<noteq> [])"
    if "p' \<in> set (backward rnd c ps)" for p'
  proof -
    from that obtain i p where p: "p \<in> set ps" "p' = backward_param rnd (c i) p"
      using backward_set by blast
    with assms have ok: "param_ok p" by (simp add: list_all_iff)
    from backward_param_ok [OF ok, of rnd "c i"] have "param_ok p'" by (simp add: p)
    then have "param_ok (collect_param p')" by (simp add: collect_param_ok)
    moreover have "p_snapshots (collect_param p') \<noteq> []"
      using collect_backward_snapshots [of rnd "c i" p] by (auto simp: p)
    ultimately show ?thesis by simp
  qed
  then show ?thesis by (simp add: list_all_iff)
qed

lemma collect_backward_snapshot_lengths:
  "map (\<lambda>p. length (p_snapshots p)) (map collect_param (backward rnd c ps))
   = map (\<lambda>p. Suc (length (p_snapshots p))) ps"
  by (rule nth_equalityI)
     (simp_all add: backward_length backward_nth collect_backward_snapshots)

lemma collect_backward_numel:
  "map p_numel (map collect_param (backward rnd c ps)) = map p_numel ps"
  by (rule nth_equalityI)
     (simp_all add: backward_length backward_nth collect_param_def backward_param_def Let_def
        split: option.splits)

lemma list_all_param_ok_weaken:
  "list_all (\<lambda>p. param_ok p \<and> (p_grad p = None \<or> p_snapshots p \<noteq> [])) ps \<Longrightarrow> list_all param_ok ps"
  by (simp add: list_all_iff)

lemma zero_grad_ok:
  "list_all param_ok ps \<Longrightarrow> list_all param_ok (map (zero_grad_param stn) ps)"
  by (simp add: list_all_iff zero_grad_param_ok)

lemma zero_grad_numel: "list_all param_ok ps \<Longrightarrow> map p_numel (map (zero_grad_param stn) ps) = map p_numel ps"
  by (simp add: list_all_iff zero_grad_param_ok)

lemma zero_grad_snapshots:
  "list_all param_ok ps \<Longrightarrow> map p_snapshots (map (zero_grad_param stn) ps) = map p_snapshots ps"
  by (simp add: list_all_iff zero_grad_param_ok)

lemma run_epoch_total:
  assumes "gas \<noteq> 0" "list_all param_ok (params s)"
  shows "\<exists>s'. run_epoch ar u gas eta lr stn bwd randn e s = Inr s'
              \<and> list_all param_ok (params s')
              \<and> map p_numel (params s') = map p_numel (params s)
              \<and> optimizer_steps s' = optimizer_steps s + (if is_boundary gas e then 1 else 0)
              \<and> (\<exists>ys. effective_step_sizes s' = effective_step_sizes s @ ys
                       \<and> length ys = (if is_boundary gas e then 1 else 0))"
proof -
  let ?ps1 = "map collect_param (backward (single ar) bwd (params s))"
  have ok1: "list_all (\<lambda>p. param_ok p \<and> (p_grad p = None \<or> p_snapshots p \<noteq> [])) ?ps1"
    using assms(2) by (rule collect_backward_ok)
  have n1: "map p_numel ?ps1 = map p_numel (params s)" by (rule collect_backward_numel)
  show ?thesis
  proof (cases "is_boundary gas e")
    case False
    then show ?thesis
      using assms(1) ok1 n1
      by (simp add: run_epoch_def is_boundary_def Let_def list_all_param_ok_weaken)
  next
    case True
    obtain ps2 where ps2: "(if u then inject_all (single ar) eta randn 0 ?ps1 else Inr ?ps1) = Inr ps2"
      "list_all param_ok ps2" "map p_numel ps2 = map p_numel ?ps1"
    proof (cases u)
      case True
      from inject_all_ok [OF ok1, of "single ar" eta randn 0] obtain ps' where
        "inject_all (single ar) eta randn 0 ?ps1 = Inr ps'" "list_all param_ok ps'"
        "map p_numel ps' = map p_numel ?ps1" by blast
      with True that show ?thesis by simp
    next
      case False
      with that [of ?ps1] ok1 show ?thesis by (simp add: list_all_param_ok_weaken)
    qed
    let ?s' = "zero_grad stn (optimizer_step (record_effective_step ar lr (s\<lparr>params := ps2\<rparr>)))"
    have run: "run_epoch ar u gas eta lr stn bwd randn e s = Inr ?s'"
      using assms(1) True ps2(1) by (simp add: run_epoch_def is_boundary_def Let_def)
    have "list_all param_ok (params ?s')"
      using zero_grad_ok [OF ps2(2)]
      by (simp add: zero_grad_def optimizer_step_def record_effective_step_def)
    moreover have "map p_numel (params ?s') = map p_numel (params s)"
      using ps2(3) n1 zero_grad_numel [OF ps2(2), of stn]
      by (simp add: zero_grad_def optimizer_step_def record_effective_step_def)
    moreover have "optimizer_steps ?s' = optimizer_steps s + 1"
      by (simp add: zero_grad_def optimizer_step_def record_effective_step_def)
    moreover have "effective_step_sizes ?s'
        = effective_step_sizes s @ [effective_step ar lr (map grad_tensor ps2)]"
      by (simp add: zero_grad_def optimizer_step_def record_effective_step_def)
    ultimately show ?thesis using run True by simp
  qed
qed

lemma run_epoch_no_noise_snapshots:
  assumes "list_all param_ok (params s)"
    "run_epoch ar False gas eta lr stn bwd randn e s = Inr s'"
  shows "map (\<lambda>p. length (p_snapshots p)) (params s')
         = map (\<lambda>p. Suc (length (p_snapshots p))) (params s)"
proof -
  let ?ps1 = "map collect_param (backward (single ar) bwd (params s))"
  have ok1: "list_all param_ok ?ps1"
    using collect_backward_ok [OF assms(1)] by (rule list_all_param_ok_weaken)
  have "map (\<lambda>p. length (p_snapshots p)) (map (zero_grad_param stn) ?ps1)
        = map length (map p_snapshots (map (zero_grad_param stn) ?ps1))"
    by (simp add: o_def)
  also have "\<dots> = map length (map p_snapshots ?ps1)"
    by (simp only: zero_grad_snapshots [OF ok1])
  also have "\<dots> = map (\<lambda>p. length (p_snapshots p)) ?ps1" by (simp add: o_def)
  finally have z: "map (\<lambda>p. length (p_snapshots p)) (map (zero_grad_param stn) ?ps1)
        = map (\<lambda>p. length (p_snapshots p)) ?ps1" .
  have "params s' = ?ps1 \<or> params s' = map (zero_grad_param stn) ?ps1"
    using assms(2)
    by (auto simp: run_epoch_def Let_def zero_grad_def optimizer_step_def
        record_effective_step_def split: if_splits)
  then have "map (\<lambda>p. length (p_snapshots p)) (params s')
        = map (\<lambda>p. length (p_snapshots p)) ?ps1"
    using z by auto
  then show ?thesis by (simp only: collect_backward_snapshot_lengths)
qed

lemma run_epochs_total:
  assumes "gas \<noteq> 0" "list_all param_ok (params s)"
  shows "\<exists>s'. run_epochs ar u gas eta lr stn bwd randn es s = Inr s'
              \<and> list_all param_ok (params s')
              \<and> map p_numel (params s') = map p_numel (params s)
              \<and> optimizer_steps s' = optimizer_steps s + boundaries gas es
              \<and> (\<exists>ys. effective_step_sizes s' = effective_step_sizes s @ ys
                       \<and> length ys = boundaries gas es)"
  using assms(2)
proof (induction es arbitrary: s)
  case Nil
  then show ?case by (simp add: boundaries_def)
next
  case (Cons e es)
  from run_epoch_total [OF assms(1) Cons.prems, of ar u eta lr stn "bwd e" "randn e" e]
  obtain s1 ys1 where s1: "run_epoch ar u gas eta lr stn (bwd e) (randn e) e s = Inr s1"
    "list_all param_ok (params s1)" "map p_numel (params s1) = map p_numel (params s)"
    "optimizer_steps s1 = optimizer_steps s + (if is_boundary gas e then 1 else 0)"
    "effective_step_sizes s1 = effective_step_sizes s @ ys1"
    "length ys1 = (if is_boundary gas e then 1 else 0)"
    by blast
  from Cons.IH [OF s1(2)] obtain s' ys where s': "run_epochs ar u gas eta lr stn bwd randn es s1 = Inr s'"
    "list_all param_ok (params s')" "map p_numel (params s') = map p_numel (params s1)"
    "optimizer_steps s' = optimizer_steps s1 + boundaries gas es"
    "effective_step_sizes s' = effective_step_sizes s1 @ ys"
    "length ys = boundaries gas es"
    by blast
  have "effective_step_sizes s' = effective_step_sizes s @ (ys1 @ ys)
        \<and> length (ys1 @ ys) = boundaries gas (e # es)"
    using s1 s' by (simp add: boundaries_def)
  then have "\<exists>zs. effective_step_sizes s' = effective_step_sizes s @ zs
        \<and> length zs = boundaries gas (e # es)" by (rule exI)
  then show ?case using s1 s' by (simp add: boundaries_def)
qed

lemma run_epochs_no_noise_snapshots:
  assumes "list_all param_ok (params s)" "gas \<noteq> 0"
    "run_epochs ar False gas eta lr stn bwd randn es s = Inr s'"
  shows "map (\<lambda>p. length (p_snapshots p)) (params s')
         = map (\<lambda>p. length (p_snapshots p) + length es) (params s)"
  using assms(1,3)
proof (induction es arbitrary: s)
  case Nil
  then show ?case by simp
next
  case (Cons e es)
  then obtain s1 where s1: "run_epoch ar False gas eta lr stn (bwd e) (randn e) e s = Inr s1"
    "run_epochs ar False gas eta lr stn bwd randn es s1 = Inr s'"
    by (auto split: sum.splits)
  from run_epoch_total [OF assms(2) Cons.prems(1), of ar False eta lr stn "bwd e" "randn e" e] s1(1)
  have ok1: "list_all param_ok (params s1)" by auto
  have a: "map (\<lambda>p. length (p_snapshots p)) (params s')
           = map (\<lambda>p. length (p_snapshots p) + length es) (params s1)"
    using ok1 s1(2) by (rule Cons.IH)
  have b: "map (\<lambda>p. length (p_snapshots p)) (params s1)
           = map (\<lambda>p. Suc (length (p_snapshots p))) (params s)"
    using Cons.prems(1) s1(1) by (rule run_epoch_no_noise_snapshots)
  have "map (\<lambda>p. length (p_snapshots p) + length es) (params s1)
        = map (\<lambda>n. n + length es) (map (\<lambda>p. length (p_snapshots p)) (params s1))"
    by (simp add: o_def)
  also have "\<dots> = map (\<lambda>n. n + length es) (map (\<lambda>p. Suc (length (p_snapshots p))) (params s))"
    by (simp only: b)
  also have "\<dots> = map (\<lambda>p. length (p_snapshots p) + length (e # es)) (params s)"
    by (simp add: o_def)
  finally show ?case using a by simp
qed

lemma boundaries_upt:
  assumes "0 < gas"
  shows "boundaries gas [0..<n] = n div nat gas"
proof (induction n)
  case 0
  then show ?case by (simp add: boundaries_def)
next
  case (Suc n)
  have "is_boundary gas n = (Suc n mod nat gas = 0)"
  proof -
    have "int (Suc n mod nat gas) = int (Suc n) mod gas"
      using assms by (simp add: zmod_int)
    also have "\<dots> = (int n + 1) mod gas" by (simp add: add.commute)
    finally have "(int n + 1) mod gas = int (Suc n mod nat gas)" by simp
    then show ?thesis unfolding is_boundary_def by (simp only: of_nat_eq_0_iff)
  qed
  then show ?case using Suc by (simp add: boundaries_def div_Suc)
qed

lemma init_state_ok: "list_all param_ok (params init_state)"
  by (simp add: init_state_def SimpleModel_parameters_def param_ok_def)

subsection \<open>Snapshot lists without noise injection\<close>

text \<open>
  Claim C10. With noise injection disabled the snapshot lists are never cleared: for
  every non-zero accumulation count the run of \<open>k\<close> iterations completes, every
  parameter's snapshot list has exactly \<open>k\<close> entries at the end, and the optimizer has
  stepped at every window boundary on the way.
\<close>

theorem C10_snapshots_never_cleared:
  assumes "gas \<noteq> 0"
  shows "\<exists>s. final_state ar False k gas eta stn bwd randn = Inr s
             \<and> map (\<lambda>p. length (p_snapshots p)) (params s)
                 = replicate (length SimpleModel_parameters) k
             \<and> optimizer_steps s = boundaries gas [0..<k]"
proof -
  from run_epochs_total [OF assms init_state_ok, of ar False eta "1 / 1000" stn bwd randn "[0..<k]"]
  obtain s where s: "run_epochs ar False gas eta (1 / 1000) stn bwd randn [0..<k] init_state = Inr s"
    "optimizer_steps s = optimizer_steps init_state + boundaries gas [0..<k]"
    by blast
  from run_epochs_no_noise_snapshots [OF init_state_ok assms s(1)]
  have "map (\<lambda>p. length (p_snapshots p)) (params s)
        = map (\<lambda>p. length (p_snapshots p) + length [0..<k]) (params init_state)" .
  also have "\<dots> = replicate (length SimpleModel_parameters) k"
    by (simp add: init_state_def SimpleModel_parameters_def)
  finally show ?thesis using s by (simp add: final_state_def init_state_def)
qed

lemma boundaries_4_5: "boundaries 4 [0..<5] = 1"
  using boundaries_upt [of 4 5] by simp

text \<open>Five iterations with windows of four: one optimizer step, five snapshots each.\<close>

theorem C10_snapshots_never_cleared_witness:
  "\<exists>s. final_state ieee False 5 4 (1 / 100) True (\<lambda>e i j. 1) (\<lambda>e i j. 0) = Inr s
       \<and> map (\<lambda>p. length (p_snapshots p)) (params s) = [5, 5, 5, 5]
       \<and> optimizer_steps s = 1"
  using C10_snapshots_never_cleared [of 4 ieee 5 "1 / 100" True "\<lambda>e i j. 1" "\<lambda>e i j. 0"]
  by (simp add: SimpleModel_parameters_def boundaries_4_5)

subsection \<open>Noise injection\<close>



lemma noise_scale_zero_eta:
  assumes "rnd 0 = Fin 0"
  shows "noise_scale rnd 0 (map Fin v) (Fin mag) = replicate (length v) (Fin 0)"
  by (rule nth_equalityI) (simp_all add: noise_scale_def assms)

lemma add_noise_zero_scale:
  assumes "rnd 0 = Fin 0" "\<forall>x\<in>set g. representable rnd x"
  shows "add_noise rnd (map Fin g) (replicate (length g) (Fin 0)) z = map Fin g"
proof -
  have "rnd (g ! i) = Fin (g ! i)" if "i < length g" for i
    using assms(2) that by (simp add: representable_def)
  then show ?thesis
    by (intro nth_equalityI) (simp_all add: add_noise_def randn_like_def assms(1))
qed

text \<open>
  Claim C4. In an arithmetic that rounds zero to zero (binary32 and exact arithmetic
  do), for every gradient tensor of finite values of the format and every finite
  variance tensor of the same shape, the noise computed with \<open>eta = 0\<close> from any finite
  magnitude leaves the gradient as it is; so does the injection itself whenever the norm
  of the gradient is finite.
\<close>

theorem C4_zero_eta_identity:
  assumes "rnd 0 = Fin 0" "length v = length g" "\<forall>x\<in>set g. representable rnd x"
  shows "add_noise rnd (map Fin g) (noise_scale rnd 0 (map Fin v) (Fin mag)) z = map Fin g
         \<and> (is_Fin (tensor_norm rnd (map Fin g))
            \<longrightarrow> inject_noise rnd 0 (map Fin g) (map Fin v) z = Inr (map Fin g))"
proof (intro conjI impI)
  show "add_noise rnd (map Fin g) (noise_scale rnd 0 (map Fin v) (Fin mag)) z = map Fin g"
    using assms by (simp add: noise_scale_zero_eta add_noise_zero_scale)
next
  assume "is_Fin (tensor_norm rnd (map Fin g))"
  then obtain m where "tensor_norm rnd (map Fin g) = Fin m"
    by (cases "tensor_norm rnd (map Fin g)") simp_all
  then show "inject_noise rnd 0 (map Fin g) (map Fin v) z = Inr (map Fin g)"
    using assms by (simp add: inject_noise_def noise_scale_zero_eta add_noise_zero_scale)
qed

lemma tensor_norm_3_4: "tensor_norm binary32 [Fin 3, Fin 4] = Fin 5"
  by (simp add: tensor_norm_def binary32_0 binary32_9 binary32_16 binary32_25 binary32_5 sqrt_25)

text \<open>The gradient \<open>(3, 4)\<close> of norm 5 in binary32, with the variance \<open>(1, 0)\<close>.\<close>

theorem C4_zero_eta_identity_witness:
  "add_noise (single ieee) [Fin 3, Fin 4]
     (noise_scale (single ieee) 0 [Fin 1, Fin 0] (Fin 5)) (\<lambda>j. 1) = [Fin 3, Fin 4]
   \<and> inject_noise (single ieee) 0 [Fin 3, Fin 4] [Fin 1, Fin 0] (\<lambda>j. 1) = Inr [Fin 3, Fin 4]"
  using C4_zero_eta_identity [of "single ieee" "[1, 0]" "[3, 4]" 5 "\<lambda>j. 1"]
  by (simp add: ieee_def binary32_0 representable_def binary32_3 binary32_4 tensor_norm_3_4)

text \<open>
  The first iteration of the run, with \<open>eta = 0\<close>: the gradients of the four
  parameters after the backward pass, and after the injection. The backward pass gives
  the bias of \<open>fc1\<close> the gradient \<open>2 ^ 127\<close> at each of its five entries, all finite
  values of binary32. The sum of their squares overflows, the norm is infinite, the noise scale
  (zero times infinity) is \<open>NaN\<close>, and the injection turns every entry of the gradient
  into \<open>NaN\<close>.
\<close>

theorem C4_norm_overflow_counterexample:
  "map grad_tensor
     (map collect_param
        (backward (single ieee) (\<lambda>i j. if i = 1 then 2 ^ 127 else 0) (params init_state)))
     = [Some (replicate 50 (Fin 0)), Some (replicate 5 (Fin (2 ^ 127))),
        Some (replicate 5 (Fin 0)), Some [Fin 0]]
   \<and> map_sum id (map grad_tensor)
       (inject_all (single ieee) 0 (\<lambda>i j. 1) 0
          (map collect_param
             (backward (single ieee) (\<lambda>i j. if i = 1 then 2 ^ 127 else 0) (params init_state))))
     = Inr [Some (replicate 50 (Fin 0)), Some (replicate 5 NaN),
            Some (replicate 5 (Fin 0)), Some [Fin 0]]"
  by (simp add: init_state_def SimpleModel_parameters_def backward_def backward_param_def
      collect_param_def grad_tensor_def snapshot_tensors_def inject_param_def
      compute_variance_online_def variance_finalize_def variance_update_def
      empty_state_def np_broadcast_to_def zeros_like_def inject_noise_def add_noise_def
      noise_scale_def randn_like_def tensor_norm_def inf_of_sign_def
      ieee_def Let_def binary32_0 binary32_2p127_numeral binary32_2p254_numeral upt_rec enumerate_eq_zip
      numeral_eq_Suc)






subsection \<open>The effective step size\<close>








subsection \<open>When the optimizer steps\<close>

text \<open>
  In \<open>run_experiment\<close> the test is \<open>(epoch + 1) % gradient_accumulation_steps == 0\<close>: with
  windows of four and four iterations, and noise injection disabled, the optimizer
  steps exactly once and the record has exactly one entry.
\<close>

lemma run_experiment_four_micro_batches:
  "\<exists>s. final_state ar False 4 4 eta stn bwd randn = Inr s
       \<and> optimizer_steps s = 1 \<and> length (effective_step_sizes s) = 1"
proof -
  have b: "boundaries 4 [0..<4] = 1" using boundaries_upt [of 4 4] by simp
  from run_epochs_total [of 4 init_state ar False eta "1 / 1000" stn bwd randn "[0..<4]"]
    init_state_ok b
  show ?thesis by (auto simp: final_state_def init_state_def)
qed


subsection \<open>Metric computation with retries\<close>

lemma binary64_1: "binary64 1 = Fin 1"
  unfolding binary64_def
  by (subst round_ieee_eval [where k = 0]) (simp_all add: pow2_def round_even_def Let_def)

lemma binary64_3_2: "binary64 (3 / 2) = Fin (3 / 2)"
  unfolding binary64_def
  by (subst round_ieee_eval [where k = 0]) (simp_all add: pow2_def round_even_def Let_def)

lemma time_unbound: "''time'' \<notin> set module_globals"
  by (simp add: module_globals_def)

text \<open>
  Every path through the first pass of the loop leaves the function, so
  \<open>metric.compute()\<close> is called at most once.
\<close>

lemma retry_loop_first_attempt:
  "retry_loop metric initial_wait jitter (attempt # attempts) []
   = (case metric attempt of
        Returns v \<Rightarrow> ([Compute], Some (Inr v))
      | Raises (ValueErr msg) \<Rightarrow>
          if contains ''Please specify an experiment_id'' msg then
            (case wait_time initial_wait attempt (jitter attempt) of
               Inl e \<Rightarrow> ([Compute], Some (Inl e))
             | Inr w \<Rightarrow> ([Compute, Print (attempt + 1) w], Some (Inl (NameErr ''time''))))
          else ([Compute], Some (Inl (ValueErr msg)))
      | Raises e \<Rightarrow> ([Compute], Some (Inl e)))"
  by (simp add: time_unbound split: outcome.splits exn.splits sum.splits)

lemma compute_with_retry_calls_once:
  "length (filter (\<lambda>e. e = Compute) (fst (compute_with_retry metric max_retries initial_wait jitter))) \<le> 1"
proof (cases "[0..<nat max_retries]")
  case Nil
  then show ?thesis by (simp add: compute_with_retry_def)
next
  case (Cons a as)
  then show ?thesis
    by (simp add: compute_with_retry_def time_unbound
        split: outcome.splits exn.splits sum.splits)
qed

text \<open>
  Claim C6. The module never imports \<open>time\<close>. When the first call of
  \<open>metric.compute()\<close> fails with the transient \<open>ValueError\<close> and every later call would
  return \<open>v\<close>, \<open>compute_with_retry\<close> with its default arguments computes the waiting
  time (1.5 seconds for a draw of 0.5), prints it, and raises \<open>NameError\<close> at
  \<open>time.sleep\<close>: the metric is computed once and never retried.
\<close>

theorem C6_transient_failure_raises_NameError:
  "compute_with_retry
     (\<lambda>k. if k = 0 then Raises (ValueErr ''Please specify an experiment_id'') else Returns v)
     10 1 (\<lambda>k. 1 / 2)
   = ([Compute, Print 1 (Fin (3 / 2))], Inl (NameErr ''time''))"
  by (simp add: compute_with_retry_def upt_rec wait_time_def binary64_1 binary64_3_2
      time_unbound)

end
